theory Spec2Isabelle
  imports Main
begin

section \<open>Values, strings and errors\<close>

text \<open>
  The rules engine of share.app (\<^verbatim>\<open>src/core/RulesEngine.js\<close>), its content model
  (\<^verbatim>\<open>src/core/Models.js\<close>) and the adapter protocol
  (\<^verbatim>\<open>src/core/SocialAdapter.js\<close>, \<^verbatim>\<open>src/core/DummyAdapter.js\<close>).

  A JavaScript string is modelled as a \<^typ>\<open>string\<close> whose characters are the code units
  U+0000 .. U+00FF. Numbers are mathematical integers: the JavaScript doubles agree with
  them as long as every intermediate value is a safe integer (\<^verbatim>\<open>Number.isSafeInteger\<close>,
  at most \<open>2^53 - 1\<close> in absolute value), which holds for every time value of a
  \<^verbatim>\<open>Date\<close> and for every delay literal of fewer than ten digits. Beyond that range the
  doubles round, and what is stated about a value computed from a literal is stated for
  the safe integers only.
\<close>

definition isSafeInteger :: "int \<Rightarrow> bool" where
  "isSafeInteger n = (\<bar>n\<bar> \<le> 2 ^ 53 - 1)"

text \<open>
  Everything the modelled code throws. \<^verbatim>\<open>Error\<close> is the plain built-in error with its
  message, \<^verbatim>\<open>TypeError\<close> what the language raises when a member that does not exist
  is called, the other two are the classes of \<^verbatim>\<open>SocialAdapter.js\<close> and
  \<^verbatim>\<open>Models.js\<close>.
\<close>

datatype error =
    Error string
  | TypeError string
  | NotImplementedError string
  | SocialAdapterValidationError "string list"

text \<open>The white space of \<^verbatim>\<open>String.prototype.trim\<close> and of \<^verbatim>\<open>\s\<close> below U+0100.\<close>

definition is_space :: "char \<Rightarrow> bool" where
  "is_space c = (c \<in> set [CHR 0x09, CHR 0x0A, CHR 0x0B, CHR 0x0C, CHR 0x0D, CHR 0x20, CHR 0xA0])"

text \<open>The class \<^verbatim>\<open>\d\<close>.\<close>

definition is_digit :: "char \<Rightarrow> bool" where
  "is_digit c = (c \<in> set ''0123456789'')"

definition digit_val :: "char \<Rightarrow> int" where
  "digit_val c = int (of_char c) - 48"

text \<open>
  \<^verbatim>\<open>parseInt(s, 10)\<close> on a string of decimal digits: the integer the digits write,
  which is the number \<^verbatim>\<open>parseInt\<close> returns when it is a safe integer.
\<close>

definition parseInt :: "string \<Rightarrow> int" where
  "parseInt ds = foldl (\<lambda>acc c. 10 * acc + digit_val c) 0 ds"

definition trim :: "string \<Rightarrow> string" where
  "trim s = rev (dropWhile is_space (rev (dropWhile is_space s)))"

text \<open>\<^verbatim>\<open>String.prototype.includes\<close>.\<close>

fun str_includes :: "string \<Rightarrow> string \<Rightarrow> bool" where
  "str_includes [] sub = (sub = [])"
| "str_includes (c # cs) sub = (take (length sub) (c # cs) = sub \<or> str_includes cs sub)"


section \<open>The delay grammar: \<^verbatim>\<open>parseDelay\<close>\<close>

text \<open>
  The argument of \<^verbatim>\<open>parseDelay\<close>: \<^verbatim>\<open>null\<close> or \<^verbatim>\<open>undefined\<close>, a number, or a
  string.
\<close>

datatype delay = DNull | DNum int | DStr string

text \<open>
  \<^verbatim>\<open>new Date()\<close> is read from a clock: \<open>now\<close> is the time value in milliseconds since
  the epoch, \<open>tza\<close> the offset of local time from UTC in milliseconds, taken as constant
  over the days the computation spans (no daylight-saving transition).
\<close>

record clock =
  now :: int
  tza :: int

definition msPerDay :: int where "msPerDay = 86400000"
definition msPerHour :: int where "msPerHour = 3600000"
definition msPerMinute :: int where "msPerMinute = 60000"

text \<open>\<^verbatim>\<open>/^(\d+)(m|h|d)$/\<close>: the digits and the unit.\<close>

definition durationMatch :: "string \<Rightarrow> (string \<times> char) option" where
  "durationMatch str =
     (let ds = takeWhile is_digit str; rest = dropWhile is_digit str
      in if ds \<noteq> [] \<and> (rest = ''m'' \<or> rest = ''h'' \<or> rest = ''d'')
         then Some (ds, hd rest) else None)"

text \<open>\<^verbatim>\<open>\s+(\d{2}):(\d{2})$\<close>, the common tail of the two forms with a time of day.\<close>

definition timeTail :: "string \<Rightarrow> (string \<times> string) option" where
  "timeTail r =
     (let sp = takeWhile is_space r; t = dropWhile is_space r
      in if sp \<noteq> [] \<and> length t = 5 \<and> is_digit (t ! 0) \<and> is_digit (t ! 1) \<and> t ! 2 = CHR '':''
            \<and> is_digit (t ! 3) \<and> is_digit (t ! 4)
         then Some (take 2 t, drop 3 t) else None)"

text \<open>\<^verbatim>\<open>/^(\d+)d\s+(\d{2}):(\d{2})$/\<close>.\<close>

definition durationTimeMatch :: "string \<Rightarrow> (string \<times> string \<times> string) option" where
  "durationTimeMatch str =
     (let ds = takeWhile is_digit str; rest = dropWhile is_digit str
      in if ds \<noteq> [] \<and> rest \<noteq> [] \<and> hd rest = CHR ''d''
         then (case timeTail (tl rest) of Some (hh, mm) \<Rightarrow> Some (ds, hh, mm) | None \<Rightarrow> None)
         else None)"

definition dayNames :: "string list" where
  "dayNames = [''Sun'', ''Mon'', ''Tue'', ''Wed'', ''Thu'', ''Fri'', ''Sat'']"

text \<open>\<^verbatim>\<open>/^(Mon|Tue|Wed|Thu|Fri|Sat|Sun)\s+(\d{2}):(\d{2})$/\<close>.\<close>

definition weekdayMatch :: "string \<Rightarrow> (string \<times> string \<times> string) option" where
  "weekdayMatch str =
     (if take 3 str \<in> set dayNames
      then (case timeTail (drop 3 str) of Some (hh, mm) \<Rightarrow> Some (take 3 str, hh, mm) | None \<Rightarrow> None)
      else None)"

text \<open>\<^verbatim>\<open>dayNames.indexOf(name)\<close>, for a name that is in the list.\<close>

fun indexOf :: "string list \<Rightarrow> string \<Rightarrow> int" where
  "indexOf [] x = -1"
| "indexOf (y # ys) x = (if y = x then 0 else (let i = indexOf ys x in if i < 0 then -1 else i + 1))"

text \<open>
  The \<^verbatim>\<open>Date\<close> arithmetic of the weekday form. With \<open>t = now + tza\<close> the local time
  value, \<^verbatim>\<open>getDay()\<close> is \<open>(Day t + 4) mod 7\<close> (day 0 of the epoch was a Thursday);
  \<^verbatim>\<open>setDate(getDate() + daysAhead)\<close> moves to day \<open>Day t + daysAhead\<close> and keeps the
  time within the day; \<^verbatim>\<open>setHours(h, m, 0, 0)\<close> replaces the time within the day by
  \<open>h * msPerHour + m * msPerMinute\<close>.
\<close>

definition Day :: "int \<Rightarrow> int" where
  "Day t = t div msPerDay"

definition getDay :: "clock \<Rightarrow> int" where
  "getDay c = (Day (now c + tza c) + 4) mod 7"

definition weekdayTarget :: "clock \<Rightarrow> int \<Rightarrow> int \<Rightarrow> int \<Rightarrow> int" where
  "weekdayTarget c daysAhead targetH targetM =
     (Day (now c + tza c) + daysAhead) * msPerDay + targetH * msPerHour + targetM * msPerMinute - tza c"

definition invalidDelay :: "string \<Rightarrow> error" where
  "invalidDelay s = Error (''Invalid delay format: '' @ [CHR 0x27] @ s @ [CHR 0x27])"

definition parseWeekday :: "clock \<Rightarrow> string \<Rightarrow> string \<Rightarrow> string \<Rightarrow> int" where
  "parseWeekday c name hh mm =
     (let targetDay = indexOf dayNames name;
          targetH = parseInt hh;
          targetM = parseInt mm;
          currentDay = getDay c;
          daysAhead = targetDay - currentDay;
          daysAhead = (if daysAhead \<le> 0 then daysAhead + 7 else daysAhead)
      in weekdayTarget c daysAhead targetH targetM - now c)"

definition parseDurationTime :: "string \<Rightarrow> string \<Rightarrow> string \<Rightarrow> int" where
  "parseDurationTime ds hh mm =
     (let days = parseInt ds; hours = parseInt hh; minutes = parseInt mm
      in (days * 24 * 60 * 60 + hours * 60 * 60 + minutes * 60) * 1000)"

text \<open>The part of \<^verbatim>\<open>parseDelay\<close> after the simple duration: the two forms with a time.\<close>

definition parseTimed :: "clock \<Rightarrow> string \<Rightarrow> string \<Rightarrow> error + int" where
  "parseTimed c s str =
     (case durationTimeMatch str of
        Some (ds, hh, mm) \<Rightarrow> Inr (parseDurationTime ds hh mm)
      | None \<Rightarrow>
         (case weekdayMatch str of
            Some (name, hh, mm) \<Rightarrow> Inr (parseWeekday c name hh mm)
          | None \<Rightarrow> Inl (invalidDelay s)))"

fun parseDelay :: "clock \<Rightarrow> delay \<Rightarrow> error + int" where
  "parseDelay c DNull = Inr 0"
| "parseDelay c (DNum n) = Inr n"
| "parseDelay c (DStr s) =
     (if s = ''0'' then Inr 0
      else let str = trim s in
        (case durationMatch str of
           Some (ds, unit) \<Rightarrow>
             (let v = parseInt ds in
              if unit = CHR ''m'' then Inr (v * 60 * 1000)
              else if unit = CHR ''h'' then Inr (v * 60 * 60 * 1000)
              else if unit = CHR ''d'' then Inr (v * 24 * 60 * 60 * 1000)
              else parseTimed c s str)
         | None \<Rightarrow> parseTimed c s str))"

text \<open>
  The strings \<^verbatim>\<open>parseDelay\<close> reads as a delay, stated without the regular expressions:
  \<open><N>m\<close>, \<open><N>h\<close>, \<open><N>d\<close>; \<open><N>d HH:MM\<close>; \<open><Weekday> HH:MM\<close>. Here \<open><N>\<close> is
  a non-empty string of digits, \<open>HH\<close> and \<open>MM\<close> are any two digits each (\<open>99:99\<close>
  included), the separator is one or more white-space characters, and the string is read
  after the white space around it is removed, except for the string \<open>"0"\<close>, which is
  compared as it is.
\<close>

definition is_number :: "string \<Rightarrow> bool" where
  "is_number n = (n \<noteq> [] \<and> list_all is_digit n)"

definition is_blank :: "string \<Rightarrow> bool" where
  "is_blank sp = (sp \<noteq> [] \<and> list_all is_space sp)"

definition is_clock_time :: "string \<Rightarrow> string \<Rightarrow> bool" where
  "is_clock_time hh mm = (length hh = 2 \<and> length mm = 2 \<and> list_all is_digit hh \<and> list_all is_digit mm)"

definition duration_literal :: "string \<Rightarrow> bool" where
  "duration_literal t = (\<exists>n u. is_number n \<and> u \<in> set ''mhd'' \<and> t = n @ [u])"

definition days_time_literal :: "string \<Rightarrow> bool" where
  "days_time_literal t =
     (\<exists>n sp hh mm. is_number n \<and> is_blank sp \<and> is_clock_time hh mm \<and> t = n @ ''d'' @ sp @ hh @ '':'' @ mm)"

definition weekday_time_literal :: "string \<Rightarrow> bool" where
  "weekday_time_literal t =
     (\<exists>w sp hh mm. w \<in> set dayNames \<and> is_blank sp \<and> is_clock_time hh mm \<and> t = w @ sp @ hh @ '':'' @ mm)"

definition delay_literal :: "string \<Rightarrow> bool" where
  "delay_literal s =
     (s = ''0'' \<or> duration_literal (trim s) \<or> days_time_literal (trim s) \<or> weekday_time_literal (trim s))"

text \<open>
  The accepted forms of section 4.1 of the specification, as it words them: the string
  \<open>"0"\<close>; \<open><N>m\<close>, \<open><N>h\<close>, \<open><N>d\<close> with \<open>N\<close> an integer in decimal digits;
  \<open><N>d HH:MM\<close>; \<open><Weekday> HH:MM\<close> with a three-letter weekday abbreviation. \<open>HH:MM\<close>
  is a time of day, an hour from \<open>00\<close> to \<open>23\<close> and a minute from \<open>00\<close> to \<open>59\<close>, the
  two parts of a form are separated by one space, and nothing stands around the form.
\<close>

definition time_of_day :: "string \<Rightarrow> string \<Rightarrow> bool" where
  "time_of_day hh mm = (is_clock_time hh mm \<and> parseInt hh \<le> 23 \<and> parseInt mm \<le> 59)"

definition spec_delay_literal :: "string \<Rightarrow> bool" where
  "spec_delay_literal s =
     (s = ''0''
      \<or> (\<exists>n u. is_number n \<and> u \<in> set ''mhd'' \<and> s = n @ [u])
      \<or> (\<exists>n hh mm. is_number n \<and> time_of_day hh mm \<and> s = n @ ''d '' @ hh @ '':'' @ mm)
      \<or> (\<exists>w hh mm. w \<in> set dayNames \<and> time_of_day hh mm \<and> s = w @ '' '' @ hh @ '':'' @ mm))"


section \<open>Content and its validation (\<^verbatim>\<open>Models.js\<close>)\<close>

text \<open>
  A content object. A property that is absent, \<^verbatim>\<open>undefined\<close> or \<^verbatim>\<open>null\<close> is
  \<open>None\<close>. The options bag plays no part in the functions modelled here.
\<close>

record content =
  text' :: "string option"
  photo :: "string option"
  video :: "string option"
  document :: "string option"
  audio :: "string option"
  tags :: "string list option"
  type' :: "string option"
  lang :: "string option"

text \<open>The truth value of a string property: absent and the empty string are falsy.\<close>

definition truthy :: "string option \<Rightarrow> bool" where
  "truthy v = (case v of None \<Rightarrow> False | Some s \<Rightarrow> s \<noteq> [])"

record validation =
  valid :: bool
  errors :: "string list"

definition validationMessage :: string where
  "validationMessage = ''content must have at least text or one media field (photo, video, document, audio)''"

text \<open>\<^verbatim>\<open>SocialAdapterContent.validate\<close>.\<close>

definition validate :: "content \<Rightarrow> validation" where
  "validate raw =
     (let hasText = (case text' raw of None \<Rightarrow> False | Some t \<Rightarrow> t \<noteq> [] \<and> length (trim t) > 0);
          hasMedia = (truthy (photo raw) \<or> truthy (video raw) \<or> truthy (document raw) \<or> truthy (audio raw));
          errors = (if \<not> hasText \<and> \<not> hasMedia then [validationMessage] else [])
      in \<lparr>valid = (length errors = 0), errors = errors\<rparr>)"

text \<open>
  The reading of the specification: content carries text when its trimmed text is not
  empty, and a media reference when one of the four media properties is set to a
  non-empty string.
\<close>

definition has_text :: "content \<Rightarrow> bool" where
  "has_text c = (\<exists>t. text' c = Some t \<and> trim t \<noteq> [])"

definition has_media_reference :: "content \<Rightarrow> bool" where
  "has_media_reference c = (truthy (photo c) \<or> truthy (video c) \<or> truthy (document c) \<or> truthy (audio c))"


section \<open>Conditions, rules and tasks (\<^verbatim>\<open>RulesEngine.js\<close>)\<close>

text \<open>
  The \<^verbatim>\<open>if\<close> block of a rule. \<^verbatim>\<open>tags\<close> is an array or a single string, which
  \<^verbatim>\<open>matchesConditions\<close> wraps into an array.
\<close>

datatype tags_condition = TagList "string list" | TagString string

record conditions =
  cond_tags :: "tags_condition option"
  cond_type :: "string option"
  cond_lang :: "string option"
  hasMedia :: "bool option"

fun tags_truthy :: "tags_condition option \<Rightarrow> bool" where
  "tags_truthy None = False"
| "tags_truthy (Some (TagList ts)) = True"
| "tags_truthy (Some (TagString s)) = (s \<noteq> [])"

fun required_tags :: "tags_condition option \<Rightarrow> string list" where
  "required_tags None = []"
| "required_tags (Some (TagList ts)) = ts"
| "required_tags (Some (TagString s)) = [s]"

text \<open>\<^verbatim>\<open>Object.keys(conditions).length === 0\<close>: no property is set.\<close>

definition no_keys :: "conditions \<Rightarrow> bool" where
  "no_keys c = (cond_tags c = None \<and> cond_type c = None \<and> cond_lang c = None \<and> hasMedia c = None)"

definition matchesConditions :: "content \<Rightarrow> conditions option \<Rightarrow> bool" where
  "matchesConditions content conds =
     (case conds of
        None \<Rightarrow> True
      | Some conditions \<Rightarrow>
          if no_keys conditions then True
          else if tags_truthy (cond_tags conditions)
                  \<and> \<not> list_ex (\<lambda>tag. tag \<in> set (case tags content of None \<Rightarrow> [] | Some ts \<Rightarrow> ts))
                          (required_tags (cond_tags conditions))
            then False
          else if truthy (cond_type conditions) \<and> type' content \<noteq> cond_type conditions then False
          else if truthy (cond_lang conditions) \<and> lang content \<noteq> cond_lang conditions then False
          else (case hasMedia conditions of
                  None \<Rightarrow> True
                | Some wanted \<Rightarrow>
                    (let hasMedia = (truthy (photo content) \<or> truthy (document content) \<or> truthy (video content))
                     in if wanted \<noteq> hasMedia then False else True)))"

text \<open>
  The presence of any media reference as the specification words it for the \<^verbatim>\<open>hasMedia\<close>
  condition: photo, video, document or audio.
\<close>

definition any_media :: "content \<Rightarrow> bool" where
  "any_media c = (truthy (photo c) \<or> truthy (video c) \<or> truthy (document c) \<or> truthy (audio c))"

text \<open>A destination of a rule, \<^verbatim>\<open>{ adapter, delay, channel }\<close>, and a rule.\<close>

record target =
  target_adapter :: string
  target_delay :: delay
  target_channel :: "string option"

record rule =
  name :: string
  if' :: "conditions option"
  rule_publish :: "target list"

text \<open>
  An adapter object is referred to by its address; a task holds the reference, so two
  tasks are bound to the same adapter exactly when their references are equal, as the
  \<^verbatim>\<open>Map\<close> and the \<^verbatim>\<open>Set\<close> of \<^verbatim>\<open>executeTasks\<close> compare their keys.
\<close>

type_synonym ref = nat

record task =
  adapter :: ref
  content :: content
  delayMs :: int
  channel :: "string option"
  ruleName :: string

definition notFoundWarning :: "string \<Rightarrow> string \<Rightarrow> string" where
  "notFoundWarning adapterId rname =
     ''[share.app] Adapter '' @ [CHR 0x27] @ adapterId @ [CHR 0x27] @ '' not found, skipping rule ''
       @ [CHR 0x27] @ rname @ [CHR 0x27]"

text \<open>
  The inner loop of \<^verbatim>\<open>evaluateRules\<close> over the destinations of one rule. The first
  component of the result is what was written with \<^verbatim>\<open>console.warn\<close>; the second is
  the exception thrown by \<^verbatim>\<open>parseDelay\<close>, or the task list.
\<close>

fun publishLoop ::
  "clock \<Rightarrow> (string \<rightharpoonup> ref) \<Rightarrow> content \<Rightarrow> rule \<Rightarrow> target list \<Rightarrow> string list \<times> task list
     \<Rightarrow> string list \<times> (error + task list)" where
  "publishLoop c adapters cnt r [] (warns, tasks) = (warns, Inr tasks)"
| "publishLoop c adapters cnt r (tg # rest) (warns, tasks) =
     (case adapters (target_adapter tg) of
        None \<Rightarrow> publishLoop c adapters cnt r rest (warns @ [notFoundWarning (target_adapter tg) (name r)], tasks)
      | Some a \<Rightarrow>
          (case parseDelay c (target_delay tg) of
             Inl e \<Rightarrow> (warns, Inl e)
           | Inr d \<Rightarrow>
               publishLoop c adapters cnt r rest
                 (warns, tasks @ [\<lparr>adapter = a, content = cnt, delayMs = d,
                                   channel = (if truthy (target_channel tg) then target_channel tg else None),
                                   ruleName = name r\<rparr>])))"

fun rulesLoop ::
  "clock \<Rightarrow> (string \<rightharpoonup> ref) \<Rightarrow> content \<Rightarrow> rule list \<Rightarrow> string list \<times> task list
     \<Rightarrow> string list \<times> (error + task list)" where
  "rulesLoop c adapters cnt [] (warns, tasks) = (warns, Inr tasks)"
| "rulesLoop c adapters cnt (r # rest) (warns, tasks) =
     (if \<not> matchesConditions cnt (if' r) then rulesLoop c adapters cnt rest (warns, tasks)
      else (case publishLoop c adapters cnt r (rule_publish r) (warns, tasks) of
              (warns', Inl e) \<Rightarrow> (warns', Inl e)
            | (warns', Inr tasks') \<Rightarrow> rulesLoop c adapters cnt rest (warns', tasks')))"

definition evaluateRules ::
  "clock \<Rightarrow> content \<Rightarrow> rule list \<Rightarrow> (string \<rightharpoonup> ref) \<Rightarrow> string list \<times> (error + task list)" where
  "evaluateRules c cnt rules adapters =
     (let validation = validate cnt
      in if \<not> valid validation then ([], Inl (SocialAdapterValidationError (errors validation)))
         else rulesLoop c adapters cnt rules ([], []))"

text \<open>A rule set with the destinations whose adapter is not registered removed.\<close>

definition registered :: "(string \<rightharpoonup> ref) \<Rightarrow> target \<Rightarrow> bool" where
  "registered adapters tg = (adapters (target_adapter tg) \<noteq> None)"

definition dropUnregistered :: "(string \<rightharpoonup> ref) \<Rightarrow> rule list \<Rightarrow> rule list" where
  "dropUnregistered adapters rules =
     map (\<lambda>r. r\<lparr>rule_publish := filter (registered adapters) (rule_publish r)\<rparr>) rules"

text \<open>The warnings of a complete evaluation, one for each unregistered destination of a matching rule.\<close>

definition expectedWarnings :: "(string \<rightharpoonup> ref) \<Rightarrow> content \<Rightarrow> rule list \<Rightarrow> string list" where
  "expectedWarnings adapters cnt rules =
     concat (map (\<lambda>r. map (\<lambda>tg. notFoundWarning (target_adapter tg) (name r))
                          (filter (\<lambda>tg. \<not> registered adapters tg) (rule_publish r)))
                 (filter (\<lambda>r. matchesConditions cnt (if' r)) rules))"


section \<open>Adapters and \<^verbatim>\<open>executeTasks\<close>\<close>

text \<open>
  What \<^verbatim>\<open>executeTasks\<close> uses of an adapter: its \<^verbatim>\<open>id\<close> and the two asynchronous
  methods. A method call is a step on the state \<open>'w\<close> of the world outside the engine
  (the posts an adapter stores, the remote platform, the clock): it returns a value or
  throws, and leaves a new state. A call is taken as one step, as it is for
  \<^verbatim>\<open>DummyAdapter\<close>, whose methods never wait. The \<^verbatim>\<open>id\<close> of an adapter handed to the
  engine is a string, as the protocol requires of every concrete adapter, and what its
  \<^verbatim>\<open>verify()\<close> rejects with is an error object. Adapter objects that do not keep
  this much of the protocol are the \<open>adapter_instance\<close>s further down.
\<close>

record publish_result =
  pub_id :: string
  pub_url :: string

record 'w social_adapter =
  adapter_id :: string
  verify :: "'w \<Rightarrow> (error + bool) \<times> 'w"
  publish :: "content \<Rightarrow> 'w \<Rightarrow> (error + publish_result) \<times> 'w"

text \<open>
  An entry of the list \<^verbatim>\<open>executeTasks\<close> returns: \<^verbatim>\<open>{ ...result, ruleName, adapter }\<close>,
  where \<open>adapter\<close> is the \<^verbatim>\<open>id\<close> of the adapter. Of what \<^verbatim>\<open>publish\<close> returned, the
  \<^verbatim>\<open>id\<close> and the \<^verbatim>\<open>url\<close> are modelled; other properties it may carry (the
  \<^verbatim>\<open>payload\<close> of \<^verbatim>\<open>DummyAdapter\<close>) are copied along by the spread and are left out here.
\<close>

record result =
  result_id :: string
  result_url :: string
  result_ruleName :: string
  result_adapter :: string

text \<open>
  A value a call of \<^verbatim>\<open>verify()\<close> can reject with: an error object, or \<^verbatim>\<open>null\<close> or
  \<^verbatim>\<open>undefined\<close> (\<^verbatim>\<open>Promise.reject()\<close>, \<^verbatim>\<open>throw null\<close>). Any other value is taken
  as the error object with the message that reading its \<^verbatim>\<open>message\<close> property gives.
\<close>

datatype thrown = ErrorObject error | NullValue | UndefinedValue

text \<open>
  The observable effects, in the order they happen: a call of \<^verbatim>\<open>verify()\<close> on an
  adapter with what it gave, a call of \<^verbatim>\<open>publish(task.content)\<close> for a task with what
  it gave, a line written with \<^verbatim>\<open>console.warn\<close>.
\<close>

datatype event =
    VerifyCall ref "thrown + bool"
  | PublishCall task "error + publish_result"
  | Warn string

record 'w state =
  log :: "event list"
  world :: 'w

text \<open>The \<^verbatim>\<open>message\<close> property of an error object.\<close>

fun message :: "error \<Rightarrow> string" where
  "message (Error m) = m"
| "message (TypeError m) = m"
| "message (NotImplementedError m) = ''Method '' @ [CHR 0x27] @ m @ [CHR 0x27] @ '' must be implemented by the adapter''"
| "message (SocialAdapterValidationError errs) =
     ''Content validation failed: '' @ concat (case errs of [] \<Rightarrow> [] | e # es \<Rightarrow> e # map (\<lambda>x. ''; '' @ x) es)"

definition verifyWarning :: "string \<Rightarrow> error \<Rightarrow> string" where
  "verifyWarning adapterId err =
     ''[share.app] Adapter '' @ [CHR 0x27] @ adapterId @ [CHR 0x27] @ '' failed verify(): '' @ message err
       @ ''. Skipping.''"

text \<open>How a promise ends: resolved with a value, rejected with an error, or never settled.\<close>

datatype 'a outcome = Resolved 'a | Rejected error | Pending

text \<open>
  The loop of the verification gate. \<open>verified\<close> is the \<^verbatim>\<open>Map\<close> from adapters to
  booleans, in insertion order. The value \<^verbatim>\<open>verify()\<close> resolves to is not looked at.
  For the adapters of this record the \<^verbatim>\<open>catch\<close> block cannot throw: the \<^verbatim>\<open>id\<close> is a
  string and the rejection an error object, whose \<^verbatim>\<open>message\<close> can be read. The loop on
  adapter objects of any class is \<open>verifyLoop_any\<close> below.
\<close>

fun verifyLoop ::
  "(ref \<Rightarrow> 'w social_adapter) \<Rightarrow> task list \<Rightarrow> (ref \<times> bool) list \<Rightarrow> 'w state
     \<Rightarrow> (ref \<times> bool) list \<times> 'w state" where
  "verifyLoop heap [] verified st = (verified, st)"
| "verifyLoop heap (t # ts) verified st =
     (if adapter t \<in> set (map fst verified) then verifyLoop heap ts verified st
      else (case verify (heap (adapter t)) (world st) of
              (Inr v, w) \<Rightarrow>
                verifyLoop heap ts (verified @ [(adapter t, True)])
                  \<lparr>log = log st @ [VerifyCall (adapter t) (Inr v)], world = w\<rparr>
            | (Inl err, w) \<Rightarrow>
                verifyLoop heap ts (verified @ [(adapter t, False)])
                  \<lparr>log = log st @ [VerifyCall (adapter t) (Inl (ErrorObject err)),
                                   Warn (verifyWarning (adapter_id (heap (adapter t))) err)],
                   world = w\<rparr>))"

text \<open>The gate: the loop, then the tasks of the failed adapters are filtered out.\<close>

definition verifyGate ::
  "(ref \<Rightarrow> 'w social_adapter) \<Rightarrow> task list \<Rightarrow> 'w state \<Rightarrow> task list \<times> 'w state" where
  "verifyGate heap tasks st =
     (let (verified, st') = verifyLoop heap tasks [] st;
          failedAdapters = map fst (filter (\<lambda>(a, ok). \<not> ok) verified)
      in (if length failedAdapters > 0 then filter (\<lambda>t. adapter t \<notin> set failedAdapters) tasks else tasks, st'))"

definition mkResult :: "(ref \<Rightarrow> 'w social_adapter) \<Rightarrow> task \<Rightarrow> publish_result \<Rightarrow> result" where
  "mkResult heap t r =
     \<lparr>result_id = pub_id r, result_url = pub_url r, result_ruleName = ruleName t,
      result_adapter = adapter_id (heap (adapter t))\<rparr>"

text \<open>The immediate lane: one \<^verbatim>\<open>await\<close> after the other; the first rejection ends the call.\<close>

fun runImmediate ::
  "(ref \<Rightarrow> 'w social_adapter) \<Rightarrow> task list \<Rightarrow> result list \<Rightarrow> 'w state
     \<Rightarrow> (error + result list) \<times> 'w state" where
  "runImmediate heap [] results st = (Inr results, st)"
| "runImmediate heap (t # ts) results st =
     (case publish (heap (adapter t)) (content t) (world st) of
        (Inr r, w) \<Rightarrow>
          runImmediate heap ts (results @ [mkResult heap t r])
            \<lparr>log = log st @ [PublishCall t (Inr r)], world = w\<rparr>
      | (Inl err, w) \<Rightarrow> (Inl err, \<lparr>log = log st @ [PublishCall t (Inl err)], world = w\<rparr>))"

text \<open>
  The deferred lane. Every task of \<open>delayed\<close> gets a promise and a timer of
  \<^verbatim>\<open>Math.min(task.delayMs, 50)\<close> milliseconds; \<open>slots\<close> holds what the promises have been
  resolved with, by position. The timers set in one turn fire by growing timeout, and in
  the order they were set where the timeouts are equal. A callback whose
  \<^verbatim>\<open>publish\<close> rejects never resolves its promise, and the other timers still fire.
\<close>

definition timerOrder :: "task list \<Rightarrow> nat list" where
  "timerOrder delayed = map fst (sort_key (\<lambda>(i, t). min (delayMs t) 50) (enumerate 0 delayed))"

fun fireTimers ::
  "(ref \<Rightarrow> 'w social_adapter) \<Rightarrow> task list \<Rightarrow> nat list \<Rightarrow> result option list \<Rightarrow> 'w state
     \<Rightarrow> result option list \<times> 'w state" where
  "fireTimers heap delayed [] slots st = (slots, st)"
| "fireTimers heap delayed (i # order) slots st =
     (if i < length delayed then
        (let t = delayed ! i in
         case publish (heap (adapter t)) (content t) (world st) of
           (Inr r, w) \<Rightarrow>
             fireTimers heap delayed order (slots[i := Some (mkResult heap t r)])
               \<lparr>log = log st @ [PublishCall t (Inr r)], world = w\<rparr>
         | (Inl err, w) \<Rightarrow>
             fireTimers heap delayed order slots \<lparr>log = log st @ [PublishCall t (Inl err)], world = w\<rparr>)
      else fireTimers heap delayed order slots st)"

text \<open>\<^verbatim>\<open>Promise.all\<close> over the promises of the deferred lane, by position.\<close>

definition runDelayed ::
  "(ref \<Rightarrow> 'w social_adapter) \<Rightarrow> task list \<Rightarrow> nat list \<Rightarrow> 'w state \<Rightarrow> result list outcome \<times> 'w state" where
  "runDelayed heap delayed order st =
     (let (slots, st') = fireTimers heap delayed order (replicate (length delayed) None) st
      in (case those slots of None \<Rightarrow> (Pending, st') | Some delayedResults \<Rightarrow> (Resolved delayedResults, st')))"

text \<open>The two lanes, after the gate.\<close>

definition runLanes ::
  "(ref \<Rightarrow> 'w social_adapter) \<Rightarrow> task list \<Rightarrow> 'w state \<Rightarrow> result list outcome \<times> 'w state" where
  "runLanes heap tasks st =
     (let immediate = filter (\<lambda>t. delayMs t = 0) tasks;
          delayed = filter (\<lambda>t. delayMs t > 0) tasks
      in case runImmediate heap immediate [] st of
           (Inl err, st') \<Rightarrow> (Rejected err, st')
         | (Inr results, st') \<Rightarrow>
             (case runDelayed heap delayed (timerOrder delayed) st' of
                (Resolved delayedResults, st'') \<Rightarrow> (Resolved (results @ delayedResults), st'')
              | (other, st'') \<Rightarrow> (other, st'')))"

text \<open>
  \<^verbatim>\<open>executeTasks(tasks, { verify })\<close>, called in the world \<open>w\<close>: what the promise it
  returns ends with, and the log of the call with the world it leaves.
\<close>

definition executeTasks ::
  "(ref \<Rightarrow> 'w social_adapter) \<Rightarrow> bool \<Rightarrow> task list \<Rightarrow> 'w \<Rightarrow> result list outcome \<times> 'w state" where
  "executeTasks heap verifyOpt tasks w =
     (let st = \<lparr>log = [], world = w\<rparr>;
          (tasks', st') = (if verifyOpt then verifyGate heap tasks st else (tasks, st))
      in runLanes heap tasks' st')"

text \<open>What the log says.\<close>

definition verifyCalls :: "event list \<Rightarrow> ref list" where
  "verifyCalls evs = concat (map (\<lambda>e. case e of VerifyCall a r \<Rightarrow> [a] | _ \<Rightarrow> []) evs)"

definition failedVerify :: "event list \<Rightarrow> ref list" where
  "failedVerify evs = concat (map (\<lambda>e. case e of VerifyCall a (Inl err) \<Rightarrow> [a] | _ \<Rightarrow> []) evs)"

definition publishCalls :: "event list \<Rightarrow> task list" where
  "publishCalls evs = concat (map (\<lambda>e. case e of PublishCall t r \<Rightarrow> [t] | _ \<Rightarrow> []) evs)"

definition published :: "event list \<Rightarrow> (task \<times> publish_result) list" where
  "published evs = concat (map (\<lambda>e. case e of PublishCall t (Inr r) \<Rightarrow> [(t, r)] | _ \<Rightarrow> []) evs)"


text \<open>What \<^verbatim>\<open>publish\<close> returned, read back from an entry of the result list.\<close>

definition unResult :: "result \<Rightarrow> publish_result" where
  "unResult r = \<lparr>pub_id = result_id r, pub_url = result_url r\<rparr>"

text \<open>The tasks in the order of their results: the immediate lane, then the deferred lane.\<close>

definition lanes :: "task list \<Rightarrow> task list" where
  "lanes tasks = filter (\<lambda>t. delayMs t = 0) tasks @ filter (\<lambda>t. delayMs t > 0) tasks"

text \<open>The tasks of a batch whose adapter has no failed \<^verbatim>\<open>verify()\<close> in the log.\<close>

definition survivors :: "event list \<Rightarrow> task list \<Rightarrow> task list" where
  "survivors evs tasks = filter (\<lambda>t. adapter t \<notin> set (failedVerify evs)) tasks"

text \<open>An adapter whose \<^verbatim>\<open>publish\<close> resolves for the content of the task, whatever the world is.\<close>

definition publishes :: "(ref \<Rightarrow> 'w social_adapter) \<Rightarrow> task \<Rightarrow> bool" where
  "publishes heap t = (\<forall>w. \<exists>r w'. publish (heap (adapter t)) (content t) w = (Inr r, w'))"


subsection \<open>\<^verbatim>\<open>executeTasks\<close> on adapter objects of any class\<close>

text \<open>
  An adapter object as the engine meets it, whatever its class: \<^verbatim>\<open>task.adapter.id\<close> runs
  a getter, which returns a string or throws (the getter of \<^verbatim>\<open>SocialAdapter\<close> throws
  \<^verbatim>\<open>NotImplementedError('get id')\<close>), and \<^verbatim>\<open>verify()\<close> resolves or rejects with any
  value.
\<close>

record 'w adapter_instance =
  get_id :: "error + string"
  call_verify :: "'w \<Rightarrow> (thrown + bool) \<times> 'w"
  call_publish :: "content \<Rightarrow> 'w \<Rightarrow> (error + publish_result) \<times> 'w"

text \<open>
  \<^verbatim>\<open>err.message\<close>: the message of an error object; on \<^verbatim>\<open>null\<close> and \<^verbatim>\<open>undefined\<close>
  the property access throws a \<^verbatim>\<open>TypeError\<close>.
\<close>

fun read_message :: "thrown \<Rightarrow> error + string" where
  "read_message (ErrorObject e) = Inr (message e)"
| "read_message NullValue =
     Inl (TypeError (''Cannot read properties of null (reading '' @ [CHR 0x27] @ ''message'' @ [CHR 0x27] @ '')''))"
| "read_message UndefinedValue =
     Inl (TypeError (''Cannot read properties of undefined (reading '' @ [CHR 0x27] @ ''message'' @ [CHR 0x27] @ '')''))"

text \<open>The template literal of the warning, from the two strings it interpolates.\<close>

definition verifyWarningText :: "string \<Rightarrow> string \<Rightarrow> string" where
  "verifyWarningText adapterId msg =
     ''[share.app] Adapter '' @ [CHR 0x27] @ adapterId @ [CHR 0x27] @ '' failed verify(): '' @ msg
       @ ''. Skipping.''"

text \<open>
  The loop of the verification gate. The \<^verbatim>\<open>catch\<close> block evaluates
  \<^verbatim>\<open>task.adapter.id\<close> and then \<^verbatim>\<open>err.message\<close> to build the warning, outside any
  \<^verbatim>\<open>try\<close>: when one of them throws, nothing is written, the adapter is not marked, the
  loop ends and \<^verbatim>\<open>executeTasks\<close> rejects with what was thrown.
\<close>

fun verifyLoop_any ::
  "(ref \<Rightarrow> 'w adapter_instance) \<Rightarrow> task list \<Rightarrow> (ref \<times> bool) list \<Rightarrow> 'w state
     \<Rightarrow> (error + (ref \<times> bool) list) \<times> 'w state" where
  "verifyLoop_any heap [] verified st = (Inr verified, st)"
| "verifyLoop_any heap (t # ts) verified st =
     (if adapter t \<in> set (map fst verified) then verifyLoop_any heap ts verified st
      else (case call_verify (heap (adapter t)) (world st) of
              (Inr v, w) \<Rightarrow>
                verifyLoop_any heap ts (verified @ [(adapter t, True)])
                  \<lparr>log = log st @ [VerifyCall (adapter t) (Inr v)], world = w\<rparr>
            | (Inl err, w) \<Rightarrow>
                (case get_id (heap (adapter t)) of
                   Inl e \<Rightarrow> (Inl e, \<lparr>log = log st @ [VerifyCall (adapter t) (Inl err)], world = w\<rparr>)
                 | Inr adapterId \<Rightarrow>
                     (case read_message err of
                        Inl e \<Rightarrow> (Inl e, \<lparr>log = log st @ [VerifyCall (adapter t) (Inl err)], world = w\<rparr>)
                      | Inr msg \<Rightarrow>
                          verifyLoop_any heap ts (verified @ [(adapter t, False)])
                            \<lparr>log = log st @ [VerifyCall (adapter t) (Inl err),
                                             Warn (verifyWarningText adapterId msg)],
                             world = w\<rparr>))))"

definition verifyGate_any ::
  "(ref \<Rightarrow> 'w adapter_instance) \<Rightarrow> task list \<Rightarrow> 'w state \<Rightarrow> (error + task list) \<times> 'w state" where
  "verifyGate_any heap tasks st =
     (case verifyLoop_any heap tasks [] st of
        (Inl e, st') \<Rightarrow> (Inl e, st')
      | (Inr verified, st') \<Rightarrow>
          (let failedAdapters = map fst (filter (\<lambda>(a, ok). \<not> ok) verified)
           in (Inr (if length failedAdapters > 0 then filter (\<lambda>t. adapter t \<notin> set failedAdapters) tasks
                    else tasks), st')))"

text \<open>
  \<^verbatim>\<open>{ ...result, ruleName: task.ruleName, adapter: task.adapter.id }\<close>: the entry, or what
  the getter throws.
\<close>

definition mkResult_any :: "(ref \<Rightarrow> 'w adapter_instance) \<Rightarrow> task \<Rightarrow> publish_result \<Rightarrow> error + result" where
  "mkResult_any heap t r =
     (case get_id (heap (adapter t)) of
        Inl e \<Rightarrow> Inl e
      | Inr adapterId \<Rightarrow>
          Inr \<lparr>result_id = pub_id r, result_url = pub_url r, result_ruleName = ruleName t,
               result_adapter = adapterId\<rparr>)"

text \<open>
  The immediate lane: a getter that throws while the entry is built ends the call like a
  rejected \<^verbatim>\<open>publish\<close>.
\<close>

fun runImmediate_any ::
  "(ref \<Rightarrow> 'w adapter_instance) \<Rightarrow> task list \<Rightarrow> result list \<Rightarrow> 'w state
     \<Rightarrow> (error + result list) \<times> 'w state" where
  "runImmediate_any heap [] results st = (Inr results, st)"
| "runImmediate_any heap (t # ts) results st =
     (case call_publish (heap (adapter t)) (content t) (world st) of
        (Inr r, w) \<Rightarrow>
          (case mkResult_any heap t r of
             Inr entry \<Rightarrow>
               runImmediate_any heap ts (results @ [entry])
                 \<lparr>log = log st @ [PublishCall t (Inr r)], world = w\<rparr>
           | Inl e \<Rightarrow> (Inl e, \<lparr>log = log st @ [PublishCall t (Inr r)], world = w\<rparr>))
      | (Inl err, w) \<Rightarrow> (Inl err, \<lparr>log = log st @ [PublishCall t (Inl err)], world = w\<rparr>))"

text \<open>
  The deferred lane: a getter that throws in a timer callback leaves the promise of the
  task unresolved, like a rejected \<^verbatim>\<open>publish\<close>.
\<close>

fun fireTimers_any ::
  "(ref \<Rightarrow> 'w adapter_instance) \<Rightarrow> task list \<Rightarrow> nat list \<Rightarrow> result option list \<Rightarrow> 'w state
     \<Rightarrow> result option list \<times> 'w state" where
  "fireTimers_any heap delayed [] slots st = (slots, st)"
| "fireTimers_any heap delayed (i # order) slots st =
     (if i < length delayed then
        (let t = delayed ! i in
         case call_publish (heap (adapter t)) (content t) (world st) of
           (Inr r, w) \<Rightarrow>
             (case mkResult_any heap t r of
                Inr entry \<Rightarrow>
                  fireTimers_any heap delayed order (slots[i := Some entry])
                    \<lparr>log = log st @ [PublishCall t (Inr r)], world = w\<rparr>
              | Inl e \<Rightarrow>
                  fireTimers_any heap delayed order slots
                    \<lparr>log = log st @ [PublishCall t (Inr r)], world = w\<rparr>)
         | (Inl err, w) \<Rightarrow>
             fireTimers_any heap delayed order slots \<lparr>log = log st @ [PublishCall t (Inl err)], world = w\<rparr>)
      else fireTimers_any heap delayed order slots st)"

definition runDelayed_any ::
  "(ref \<Rightarrow> 'w adapter_instance) \<Rightarrow> task list \<Rightarrow> nat list \<Rightarrow> 'w state \<Rightarrow> result list outcome \<times> 'w state" where
  "runDelayed_any heap delayed order st =
     (let (slots, st') = fireTimers_any heap delayed order (replicate (length delayed) None) st
      in (case those slots of None \<Rightarrow> (Pending, st') | Some delayedResults \<Rightarrow> (Resolved delayedResults, st')))"

definition runLanes_any ::
  "(ref \<Rightarrow> 'w adapter_instance) \<Rightarrow> task list \<Rightarrow> 'w state \<Rightarrow> result list outcome \<times> 'w state" where
  "runLanes_any heap tasks st =
     (let immediate = filter (\<lambda>t. delayMs t = 0) tasks;
          delayed = filter (\<lambda>t. delayMs t > 0) tasks
      in case runImmediate_any heap immediate [] st of
           (Inl err, st') \<Rightarrow> (Rejected err, st')
         | (Inr results, st') \<Rightarrow>
             (case runDelayed_any heap delayed (timerOrder delayed) st' of
                (Resolved delayedResults, st'') \<Rightarrow> (Resolved (results @ delayedResults), st'')
              | (other, st'') \<Rightarrow> (other, st'')))"

definition executeTasks_any ::
  "(ref \<Rightarrow> 'w adapter_instance) \<Rightarrow> bool \<Rightarrow> task list \<Rightarrow> 'w \<Rightarrow> result list outcome \<times> 'w state" where
  "executeTasks_any heap verifyOpt tasks w =
     (let st = \<lparr>log = [], world = w\<rparr>
      in if verifyOpt
         then (case verifyGate_any heap tasks st of
                 (Inl e, st') \<Rightarrow> (Rejected e, st')
               | (Inr tasks', st') \<Rightarrow> runLanes_any heap tasks' st')
         else runLanes_any heap tasks st)"

text \<open>
  An adapter object that keeps the part of the protocol the engine relies on: its
  \<^verbatim>\<open>id\<close> getter returns, and what its \<^verbatim>\<open>verify()\<close> rejects with has a message that
  can be read.
\<close>

definition keeps_protocol :: "'w adapter_instance \<Rightarrow> bool" where
  "keeps_protocol a =
     ((\<exists>adapterId. get_id a = Inr adapterId)
      \<and> (\<forall>w. fst (call_verify a w) \<noteq> Inl NullValue \<and> fst (call_verify a w) \<noteq> Inl UndefinedValue))"

text \<open>
  Such an object, seen as a \<open>social_adapter\<close>. The view is only used for objects that
  keep the protocol; for the others its \<open>adapter_id\<close> and the error of a rejection that
  is no error object stand for nothing.
\<close>

definition typed :: "'w adapter_instance \<Rightarrow> 'w social_adapter" where
  "typed a =
     \<lparr>adapter_id = (case get_id a of Inr adapterId \<Rightarrow> adapterId | Inl e \<Rightarrow> []),
      verify = (\<lambda>w. case call_verify a w of
                       (Inr v, w') \<Rightarrow> (Inr v, w')
                     | (Inl (ErrorObject e), w') \<Rightarrow> (Inl e, w')
                     | (Inl other, w') \<Rightarrow> (Inl (TypeError []), w')),
      publish = call_publish a\<rparr>"

text \<open>An adapter object whose \<^verbatim>\<open>publish\<close> resolves for the content of the task, whatever the world is.\<close>

definition publishes_any :: "(ref \<Rightarrow> 'w adapter_instance) \<Rightarrow> task \<Rightarrow> bool" where
  "publishes_any heap t = (\<forall>w. \<exists>r w'. call_publish (heap (adapter t)) (content t) w = (Inr r, w'))"


section \<open>The adapter classes (\<^verbatim>\<open>SocialAdapter.js\<close>, \<^verbatim>\<open>DummyAdapter.js\<close>)\<close>

text \<open>
  An adapter object: the name of its constructor, the class of \<^verbatim>\<open>src/core\<close> it takes
  its methods from, what its \<^verbatim>\<open>capabilities\<close> getter returns, its
  \<^verbatim>\<open>config.rejectVerify\<close> and, for a \<^verbatim>\<open>DummyAdapter\<close>, its \<^verbatim>\<open>posts\<close>.
\<close>

datatype adapter_class = SocialAdapterClass | DummyAdapterClass

record adapter_object =
  constructor_name :: string
  inherits :: adapter_class
  capabilities :: "string list"
  rejectVerify :: bool
  posts :: "string \<rightharpoonup> content"

text \<open>The members each class defines, as the source lists them.\<close>

definition SocialAdapter_members :: "string list" where
  "SocialAdapter_members =
     [''id'', ''capabilities'', ''limits'', ''can'', ''verify'', ''publish'', ''delete'', ''syncFeedback'', ''reply'']"

definition DummyAdapter_members :: "string list" where
  "DummyAdapter_members =
     [''id'', ''capabilities'', ''limits'', ''verify'', ''publish'', ''delete'', ''syncFeedback'', ''reply'', ''update'']"

fun members :: "adapter_class \<Rightarrow> string list" where
  "members SocialAdapterClass = SocialAdapter_members"
| "members DummyAdapterClass = DummyAdapter_members @ SocialAdapter_members"

definition can :: "adapter_object \<Rightarrow> string \<Rightarrow> bool" where
  "can obj cap = (cap \<in> set (capabilities obj))"

definition notSupported :: "adapter_object \<Rightarrow> string \<Rightarrow> error" where
  "notSupported obj what =
     Error (''Adapter '' @ [CHR 0x27] @ constructor_name obj @ [CHR 0x27] @ '' does not support '' @ what)"

text \<open>\<^verbatim>\<open>SocialAdapter.delete\<close> and \<^verbatim>\<open>SocialAdapter.reply\<close>: the capability check, then the abstract member.\<close>

definition SocialAdapter_delete :: "adapter_object \<Rightarrow> string \<Rightarrow> error + bool" where
  "SocialAdapter_delete obj postId =
     (if \<not> can obj ''delete'' then Inl (notSupported obj ''deleting posts.'')
      else Inl (NotImplementedError ''delete''))"

definition SocialAdapter_reply :: "adapter_object \<Rightarrow> string \<Rightarrow> string \<Rightarrow> error + string" where
  "SocialAdapter_reply obj tg txt =
     (if \<not> can obj ''reply'' then Inl (notSupported obj ''replying.'')
      else Inl (NotImplementedError ''reply''))"

definition DummyAdapter_verify :: "adapter_object \<Rightarrow> error + bool" where
  "DummyAdapter_verify obj =
     (if rejectVerify obj then Inl (Error ''Invalid config: fake rejection triggered.'') else Inr True)"

text \<open>The decimal digits of a number, for \<^verbatim>\<open>`dummy-post-${Date.now()}`\<close>.\<close>

fun decimal :: "nat \<Rightarrow> string" where
  "decimal n = (if n < 10 then [char_of (48 + n)] else decimal (n div 10) @ [char_of (48 + n mod 10)])"

declare decimal.simps [simp del]

definition DummyAdapter_publish ::
  "nat \<Rightarrow> adapter_object \<Rightarrow> content \<Rightarrow> error + publish_result \<times> adapter_object" where
  "DummyAdapter_publish dateNow obj cnt =
     (if (case text' cnt of None \<Rightarrow> False | Some t \<Rightarrow> t \<noteq> [] \<and> length t > 280)
      then Inl (Error ''Content exceeds max length of 280'')
      else (let postId = ''dummy-post-'' @ decimal dateNow
            in Inr (\<lparr>pub_id = postId, pub_url = ''https://dummy.nan0web.app/posts/'' @ postId\<rparr>,
                    obj\<lparr>posts := (posts obj)(postId \<mapsto> cnt)\<rparr>)))"

text \<open>
  \<^verbatim>\<open>{ ...existing, ...content }\<close>: a property of \<open>cnt\<close> that is set replaces the stored one.
  A property of \<open>cnt\<close> that is present with the value \<^verbatim>\<open>null\<close> or \<^verbatim>\<open>undefined\<close> is not
  told apart from an absent one by the record \<open>content\<close>; the source overwrites the stored
  value with it.
\<close>

definition spread :: "content \<Rightarrow> content \<Rightarrow> content" where
  "spread existing cnt =
     (let pick = (\<lambda>new old. case new of None \<Rightarrow> old | Some v \<Rightarrow> Some v)
      in \<lparr>text' = pick (text' cnt) (text' existing), photo = pick (photo cnt) (photo existing),
          video = pick (video cnt) (video existing), document = pick (document cnt) (document existing),
          audio = pick (audio cnt) (audio existing),
          tags = (case tags cnt of None \<Rightarrow> tags existing | Some v \<Rightarrow> Some v),
          type' = pick (type' cnt) (type' existing), lang = pick (lang cnt) (lang existing)\<rparr>)"

definition DummyAdapter_update ::
  "adapter_object \<Rightarrow> string \<Rightarrow> content \<Rightarrow> error + publish_result \<times> adapter_object" where
  "DummyAdapter_update obj postId cnt =
     (case posts obj postId of
        None \<Rightarrow> Inl (Error ''Post not found on Dummy platform'')
      | Some existing \<Rightarrow>
          Inr (\<lparr>pub_id = postId, pub_url = ''https://dummy.nan0web.app/posts/'' @ postId\<rparr>,
               obj\<lparr>posts := (posts obj)(postId \<mapsto> spread existing cnt)\<rparr>))"

text \<open>
  The call \<^verbatim>\<open>adapter.update(postId, content)\<close>: the member is looked up along the classes
  of the object, and calling a member that no class defines is a \<^verbatim>\<open>TypeError\<close>.
  \<^verbatim>\<open>SocialAdapter\<close> defines no \<^verbatim>\<open>update\<close>.
\<close>

definition update :: "adapter_object \<Rightarrow> string \<Rightarrow> content \<Rightarrow> error + publish_result \<times> adapter_object" where
  "update obj postId cnt =
     (if ''update'' \<in> set (members (inherits obj))
      then (case inherits obj of
              DummyAdapterClass \<Rightarrow> DummyAdapter_update obj postId cnt
            | SocialAdapterClass \<Rightarrow> Inl (TypeError ''adapter.update is not a function''))
      else Inl (TypeError ''adapter.update is not a function''))"

text \<open>
  The error the protocol asks of \<^verbatim>\<open>update\<close> on an adapter without the \<^verbatim>\<open>edit\<close>
  capability, in the wording of its siblings and of the contract tests of release 1.1.0
  (\<^verbatim>\<open>/does not support editing/\<close>).
\<close>

definition is_edit_capability_error :: "error \<Rightarrow> bool" where
  "is_edit_capability_error e = (case e of Error m \<Rightarrow> str_includes m ''does not support editing'' | _ \<Rightarrow> False)"

text \<open>
  \<^verbatim>\<open>DummyAdapter\<close> objects as adapters of \<^verbatim>\<open>executeTasks\<close>: the world is the value of
  \<^verbatim>\<open>Date.now()\<close> and the objects by address.
\<close>

record dummy_world =
  dateNow :: nat
  objects :: "ref \<Rightarrow> adapter_object"

definition DummyAdapter :: "ref \<Rightarrow> dummy_world social_adapter" where
  "DummyAdapter a =
     \<lparr>adapter_id = ''dummy'',
      verify = (\<lambda>w. (DummyAdapter_verify (objects w a), w)),
      publish = (\<lambda>cnt w. case DummyAdapter_publish (dateNow w) (objects w a) cnt of
                            Inl err \<Rightarrow> (Inl err, w)
                          | Inr (r, obj) \<Rightarrow> (Inr r, w\<lparr>objects := (objects w)(a := obj)\<rparr>))\<rparr>"

text \<open>
  The same objects as \<open>adapter_instance\<close>s, and a plain \<^verbatim>\<open>new SocialAdapter()\<close>: its
  \<^verbatim>\<open>id\<close> getter, \<^verbatim>\<open>verify\<close> and \<^verbatim>\<open>publish\<close> all throw
  \<^verbatim>\<open>NotImplementedError\<close>.
\<close>

definition DummyAdapter_instance :: "ref \<Rightarrow> dummy_world adapter_instance" where
  "DummyAdapter_instance a =
     \<lparr>get_id = Inr ''dummy'',
      call_verify = (\<lambda>w. (case DummyAdapter_verify (objects w a) of
                              Inl err \<Rightarrow> Inl (ErrorObject err)
                            | Inr v \<Rightarrow> Inr v, w)),
      call_publish = (\<lambda>cnt w. case DummyAdapter_publish (dateNow w) (objects w a) cnt of
                                 Inl err \<Rightarrow> (Inl err, w)
                               | Inr (r, obj) \<Rightarrow> (Inr r, w\<lparr>objects := (objects w)(a := obj)\<rparr>))\<rparr>"

definition SocialAdapter_instance :: "'w adapter_instance" where
  "SocialAdapter_instance =
     \<lparr>get_id = Inl (NotImplementedError ''get id''),
      call_verify = (\<lambda>w. (Inl (ErrorObject (NotImplementedError ''verify'')), w)),
      call_publish = (\<lambda>cnt w. (Inl (NotImplementedError ''publish''), w))\<rparr>"

definition newDummy :: "bool \<Rightarrow> adapter_object" where
  "newDummy reject =
     \<lparr>constructor_name = ''DummyAdapter'', inherits = DummyAdapterClass,
      capabilities = [''media'', ''delete'', ''reply'', ''edit'', ''photo'', ''document''],
      rejectVerify = reject, posts = Map.empty\<rparr>"

definition textContent :: "string \<Rightarrow> content" where
  "textContent t =
     \<lparr>text' = Some t, photo = None, video = None, document = None, audio = None, tags = None,
      type' = None, lang = None\<rparr>"


section \<open>Example inputs\<close>

text \<open>The object \<^verbatim>\<open>{}\<close> as content, and a condition set with \<^verbatim>\<open>hasMedia\<close> only.\<close>

definition emptyContent :: content where
  "emptyContent =
     \<lparr>text' = None, photo = None, video = None, document = None, audio = None, tags = None,
      type' = None, lang = None\<rparr>"

definition onlyHasMedia :: "bool \<Rightarrow> conditions" where
  "onlyHasMedia b = \<lparr>cond_tags = None, cond_type = None, cond_lang = None, hasMedia = Some b\<rparr>"

text \<open>
  A plain \<^verbatim>\<open>new SocialAdapter()\<close>, as the contract tests of release 1.1.0 build it, and
  an object of a subclass of \<^verbatim>\<open>DummyAdapter\<close> whose \<^verbatim>\<open>capabilities\<close> are empty and
  which holds a post \<open>p1\<close>.
\<close>

definition baseAdapter :: adapter_object where
  "baseAdapter =
     \<lparr>constructor_name = ''SocialAdapter'', inherits = SocialAdapterClass, capabilities = [],
      rejectVerify = False, posts = Map.empty\<rparr>"

definition noEditDummy :: adapter_object where
  "noEditDummy =
     \<lparr>constructor_name = ''NoEditDummy'', inherits = DummyAdapterClass, capabilities = [],
      rejectVerify = False, posts = [''p1'' \<mapsto> textContent ''old'']\<rparr>"

text \<open>The registered destinations of the matching rules, in order.\<close>

definition registeredTargets :: "(string \<rightharpoonup> ref) \<Rightarrow> content \<Rightarrow> rule list \<Rightarrow> target list" where
  "registeredTargets adapters cnt rules =
     concat (map (\<lambda>r. filter (registered adapters) (rule_publish r))
                 (filter (\<lambda>r. matchesConditions cnt (if' r)) rules))"

text \<open>
  A rule that matches everything, with a destination on an adapter \<open>nonexistent\<close> (and a
  delay that does not parse) before a destination on \<open>dummy\<close>.
\<close>

definition exampleRule :: rule where
  "exampleRule =
     \<lparr>name = ''r'', if' = None,
      rule_publish = [\<lparr>target_adapter = ''nonexistent'', target_delay = DStr ''tomorrow'', target_channel = None\<rparr>,
                      \<lparr>target_adapter = ''dummy'', target_delay = DStr ''30m'', target_channel = None\<rparr>]\<rparr>"


text \<open>
  A batch for \<^verbatim>\<open>executeTasks\<close> over two \<^verbatim>\<open>DummyAdapter\<close> objects: the one at address 1
  rejects \<^verbatim>\<open>verify()\<close>. The batch has two immediate tasks, two deferred ones whose
  timers fire in the opposite order, and a task with a negative delay.
\<close>

definition dummyWorld :: dummy_world where
  "dummyWorld = \<lparr>dateNow = 1700, objects = (\<lambda>a. newDummy (a = 1))\<rparr>"

definition exampleTask :: "ref \<Rightarrow> int \<Rightarrow> string \<Rightarrow> task" where
  "exampleTask a d n = \<lparr>adapter = a, content = textContent ''hi'', delayMs = d, channel = None, ruleName = n\<rparr>"

definition exampleBatch :: "task list" where
  "exampleBatch = [exampleTask 0 0 ''r0'', exampleTask 1 0 ''r1'', exampleTask 0 100 ''r2'',
                   exampleTask 0 20 ''r3'', exampleTask 0 (-5) ''r4'']"

text \<open>
  The same two \<^verbatim>\<open>DummyAdapter\<close> objects with a plain \<^verbatim>\<open>new SocialAdapter()\<close> at
  address 2, and with an object at address 3 whose \<^verbatim>\<open>id\<close> is \<open>quiet\<close> and whose
  \<^verbatim>\<open>verify()\<close> is \<^verbatim>\<open>async verify() { throw undefined }\<close>; a batch with a task on the
  plain adapter before a task on a \<^verbatim>\<open>DummyAdapter\<close>, and one with a task on the
  object at address 3 first.
\<close>

definition exampleHeap :: "ref \<Rightarrow> dummy_world adapter_instance" where
  "exampleHeap a =
     (if a = 2 then SocialAdapter_instance
      else if a = 3 then \<lparr>get_id = Inr ''quiet'', call_verify = (\<lambda>w. (Inl UndefinedValue, w)),
                              call_publish = call_publish (DummyAdapter_instance a)\<rparr>
      else DummyAdapter_instance a)"

definition plainBatch :: "task list" where
  "plainBatch = [exampleTask 2 0 ''r0'', exampleTask 0 0 ''r1'']"

definition quietBatch :: "task list" where
  "quietBatch = [exampleTask 3 0 ''r0'', exampleTask 0 0 ''r1'']"

definition exampleResult :: "string \<Rightarrow> result" where
  "exampleResult n =
     \<lparr>result_id = ''dummy-post-1700'', result_url = ''https://dummy.nan0web.app/posts/dummy-post-1700'',
      result_ruleName = n, result_adapter = ''dummy''\<rparr>"

definition exampleLog :: "event list" where
  "exampleLog =
     [VerifyCall 0 (Inr True),
      VerifyCall 1 (Inl (ErrorObject (Error ''Invalid config: fake rejection triggered.''))),
      Warn (verifyWarning ''dummy'' (Error ''Invalid config: fake rejection triggered.'')),
      PublishCall (exampleTask 0 0 ''r0'') (Inr (unResult (exampleResult ''r0''))),
      PublishCall (exampleTask 0 20 ''r3'') (Inr (unResult (exampleResult ''r3''))),
      PublishCall (exampleTask 0 100 ''r2'') (Inr (unResult (exampleResult ''r2'')))]"


section \<open>The delay grammar: proofs\<close>

lemma digit_not_space: "is_digit c \<Longrightarrow> \<not> is_space c"
  by (auto simp: is_digit_def is_space_def)

lemma takeWhile_all: "list_all P xs \<Longrightarrow> \<not> P y \<Longrightarrow> takeWhile P (xs @ y # ys) = xs"
  by (induction xs) auto

lemma dropWhile_all: "list_all P xs \<Longrightarrow> \<not> P y \<Longrightarrow> dropWhile P (xs @ y # ys) = y # ys"
  by (induction xs) auto


lemma durationMatch_Some:
  "durationMatch t = Some (ds, u) \<longleftrightarrow> is_number ds \<and> u \<in> set ''mhd'' \<and> t = ds @ [u]"
proof
  assume h: "durationMatch t = Some (ds, u)"
  have id: "takeWhile is_digit t @ dropWhile is_digit t = t" by simp
  from h have a: "ds = takeWhile is_digit t" "ds \<noteq> []" and
     b: "dropWhile is_digit t = ''m'' \<or> dropWhile is_digit t = ''h'' \<or> dropWhile is_digit t = ''d''"
     and c: "u = hd (dropWhile is_digit t)"
    by (auto simp: durationMatch_def Let_def split: if_splits)
  have "list_all is_digit ds" using a by (auto simp: list_all_iff dest: set_takeWhileD)
  moreover have "dropWhile is_digit t = [u]" using b c by auto
  ultimately show "is_number ds \<and> u \<in> set ''mhd'' \<and> t = ds @ [u]"
    using a b c id by (auto simp: is_number_def)
next
  assume "is_number ds \<and> u \<in> set ''mhd'' \<and> t = ds @ [u]"
  then have n: "ds \<noteq> []" "list_all is_digit ds" and u: "u \<in> set ''mhd''" "\<not> is_digit u" and t: "t = ds @ [u]"
    by (auto simp: is_number_def is_digit_def)
  show "durationMatch t = Some (ds, u)"
    using n u unfolding durationMatch_def t by (auto simp: takeWhile_all dropWhile_all)
qed

lemma durationMatch_literal: "durationMatch t \<noteq> None \<longleftrightarrow> duration_literal t"
  using durationMatch_Some[of t] unfolding duration_literal_def by (metis not_Some_eq surj_pair)

lemma length5: "length t = 5 \<Longrightarrow> \<exists>a b c x y. t = [a, b, c, x, y]"
  by (auto simp: eval_nat_numeral length_Suc_conv)

lemma timeTail_Some:
  "timeTail r = Some (hh, mm) \<longleftrightarrow> (\<exists>sp. is_blank sp \<and> is_clock_time hh mm \<and> r = sp @ hh @ '':'' @ mm)"
proof
  assume h: "timeTail r = Some (hh, mm)"
  define sp where "sp = takeWhile is_space r"
  define t where "t = dropWhile is_space r"
  have r: "r = sp @ t" by (simp add: sp_def t_def)
  have sp: "is_blank sp" using h
    by (auto simp: timeTail_def Let_def sp_def is_blank_def list_all_iff split: if_splits dest: set_takeWhileD)
  from h have "length t = 5" by (auto simp: timeTail_def Let_def t_def split: if_splits)
  then obtain a b c x y where t5: "t = [a, b, c, x, y]" using length5 by blast
  from h have "is_digit a \<and> is_digit b \<and> c = CHR '':'' \<and> is_digit x \<and> is_digit y \<and> hh = [a, b] \<and> mm = [x, y]"
    unfolding timeTail_def Let_def t_def[symmetric] t5 by (simp split: if_splits)
  then have "is_clock_time hh mm" "r = sp @ hh @ '':'' @ mm"
    using r t5 by (simp_all add: is_clock_time_def)
  with sp show "\<exists>sp. is_blank sp \<and> is_clock_time hh mm \<and> r = sp @ hh @ '':'' @ mm" by blast
next
  assume "\<exists>sp. is_blank sp \<and> is_clock_time hh mm \<and> r = sp @ hh @ '':'' @ mm"
  then obtain sp where sp: "sp \<noteq> []" "list_all is_space sp"
    and c: "length hh = 2" "length mm = 2" "list_all is_digit hh" "list_all is_digit mm"
    and r: "r = sp @ hh @ '':'' @ mm"
    by (auto simp: is_blank_def is_clock_time_def)
  from c obtain a b x y where hh: "hh = [a, b]" and mm: "mm = [x, y]"
    by (auto simp: eval_nat_numeral length_Suc_conv)
  have d: "is_digit a" "is_digit b" "is_digit x" "is_digit y" using c hh mm by auto
  have ns: "\<not> is_space a" using d digit_not_space by blast
  have tw: "takeWhile is_space r = sp" "dropWhile is_space r = [a, b, CHR '':'', x, y]"
    unfolding r hh mm using sp ns by (simp_all add: takeWhile_all dropWhile_all)
  show "timeTail r = Some (hh, mm)"
    unfolding timeTail_def tw using sp d hh mm by simp
qed

lemma durationTimeMatch_Some:
  "durationTimeMatch t = Some (ds, hh, mm) \<longleftrightarrow>
     is_number ds \<and> (\<exists>sp. is_blank sp \<and> is_clock_time hh mm \<and> t = ds @ ''d'' @ sp @ hh @ '':'' @ mm)"
proof
  assume h: "durationTimeMatch t = Some (ds, hh, mm)"
  define rest where "rest = dropWhile is_digit t"
  from h have a: "ds = takeWhile is_digit t" "ds \<noteq> []" "rest \<noteq> []" "hd rest = CHR ''d''"
     "timeTail (tl rest) = Some (hh, mm)"
    by (auto simp: durationTimeMatch_def Let_def rest_def split: if_splits option.splits)
  have n: "is_number ds" using a(1,2) by (auto simp: is_number_def list_all_iff dest: set_takeWhileD)
  have "t = ds @ rest" by (simp add: a(1) rest_def)
  moreover have "rest = CHR ''d'' # tl rest" using a(3,4) by (cases rest) auto
  ultimately have t: "t = ds @ ''d'' @ tl rest" by simp
  from a(5) obtain sp where "is_blank sp" "is_clock_time hh mm" "tl rest = sp @ hh @ '':'' @ mm"
    unfolding timeTail_Some by blast
  with n t show "is_number ds \<and> (\<exists>sp. is_blank sp \<and> is_clock_time hh mm \<and> t = ds @ ''d'' @ sp @ hh @ '':'' @ mm)"
    by auto
next
  assume "is_number ds \<and> (\<exists>sp. is_blank sp \<and> is_clock_time hh mm \<and> t = ds @ ''d'' @ sp @ hh @ '':'' @ mm)"
  then obtain sp where n: "ds \<noteq> []" "list_all is_digit ds" and sp: "is_blank sp" "is_clock_time hh mm"
    and t: "t = ds @ CHR ''d'' # (sp @ hh @ '':'' @ mm)"
    by (auto simp: is_number_def)
  have nd: "\<not> is_digit CHR ''d''" by (simp add: is_digit_def)
  have tt: "timeTail (sp @ hh @ '':'' @ mm) = Some (hh, mm)" using sp unfolding timeTail_Some by blast
  show "durationTimeMatch t = Some (ds, hh, mm)"
    unfolding durationTimeMatch_def t using n nd tt by (simp add: takeWhile_all dropWhile_all)
qed

lemma weekdayMatch_Some:
  "weekdayMatch t = Some (w, hh, mm) \<longleftrightarrow>
     w \<in> set dayNames \<and> (\<exists>sp. is_blank sp \<and> is_clock_time hh mm \<and> t = w @ sp @ hh @ '':'' @ mm)"
proof
  assume h: "weekdayMatch t = Some (w, hh, mm)"
  then have a: "w = take 3 t" "w \<in> set dayNames" "timeTail (drop 3 t) = Some (hh, mm)"
    by (auto simp: weekdayMatch_def split: if_splits option.splits)
  have "t = w @ drop 3 t" by (simp add: a(1))
  moreover from a(3) obtain sp where "is_blank sp" "is_clock_time hh mm" "drop 3 t = sp @ hh @ '':'' @ mm"
    unfolding timeTail_Some by blast
  ultimately show "w \<in> set dayNames \<and> (\<exists>sp. is_blank sp \<and> is_clock_time hh mm \<and> t = w @ sp @ hh @ '':'' @ mm)"
    using a(2) by auto
next
  assume "w \<in> set dayNames \<and> (\<exists>sp. is_blank sp \<and> is_clock_time hh mm \<and> t = w @ sp @ hh @ '':'' @ mm)"
  then obtain sp where w: "w \<in> set dayNames" and sp: "is_blank sp" "is_clock_time hh mm"
    and t: "t = w @ sp @ hh @ '':'' @ mm" by blast
  have l: "length w = 3" using w by (auto simp: dayNames_def)
  have tt: "timeTail (sp @ hh @ '':'' @ mm) = Some (hh, mm)" using sp unfolding timeTail_Some by blast
  show "weekdayMatch t = Some (w, hh, mm)"
    unfolding weekdayMatch_def t using w l tt by simp
qed

lemma durationTimeMatch_literal: "durationTimeMatch t \<noteq> None \<longleftrightarrow> days_time_literal t"
proof
  assume "durationTimeMatch t \<noteq> None"
  then obtain ds hh mm where "durationTimeMatch t = Some (ds, hh, mm)" by auto
  then show "days_time_literal t" unfolding durationTimeMatch_Some days_time_literal_def by blast
next
  assume "days_time_literal t"
  then obtain ds sp hh mm where "is_number ds" "is_blank sp" "is_clock_time hh mm" "t = ds @ ''d'' @ sp @ hh @ '':'' @ mm"
    unfolding days_time_literal_def by auto
  then have "durationTimeMatch t = Some (ds, hh, mm)" unfolding durationTimeMatch_Some by blast
  then show "durationTimeMatch t \<noteq> None" by simp
qed

lemma weekdayMatch_literal: "weekdayMatch t \<noteq> None \<longleftrightarrow> weekday_time_literal t"
proof
  assume "weekdayMatch t \<noteq> None"
  then obtain w hh mm where "weekdayMatch t = Some (w, hh, mm)" by auto
  then show "weekday_time_literal t" unfolding weekdayMatch_Some weekday_time_literal_def by blast
next
  assume "weekday_time_literal t"
  then obtain w sp hh mm where "w \<in> set dayNames" "is_blank sp" "is_clock_time hh mm" "t = w @ sp @ hh @ '':'' @ mm"
    unfolding weekday_time_literal_def by blast
  then have "weekdayMatch t = Some (w, hh, mm)" unfolding weekdayMatch_Some by blast
  then show "weekdayMatch t \<noteq> None" by simp
qed

lemma durationMatch_None: "durationMatch t = None \<longleftrightarrow> \<not> duration_literal t"
  using durationMatch_literal[of t] by blast

lemma durationTimeMatch_None: "durationTimeMatch t = None \<longleftrightarrow> \<not> days_time_literal t"
  using durationTimeMatch_literal[of t] by blast

lemma weekdayMatch_None: "weekdayMatch t = None \<longleftrightarrow> \<not> weekday_time_literal t"
  using weekdayMatch_literal[of t] by blast

lemma parseDelay_rejects: "\<not> delay_literal s \<Longrightarrow> parseDelay c (DStr s) = Inl (invalidDelay s)"
proof -
  assume n: "\<not> delay_literal s"
  have a: "s \<noteq> ''0''" using n unfolding delay_literal_def by blast
  have b: "durationMatch (trim s) = None"
    using n unfolding delay_literal_def durationMatch_None by blast
  have d: "durationTimeMatch (trim s) = None"
    using n unfolding delay_literal_def durationTimeMatch_None by blast
  have e: "weekdayMatch (trim s) = None"
    using n unfolding delay_literal_def weekdayMatch_None by blast
  show ?thesis by (simp add: a b d e parseTimed_def)
qed

lemma parseDelay_duration:
  assumes "s \<noteq> ''0''" "durationMatch (trim s) = Some (ds, u)"
  shows "parseDelay c (DStr s) =
           Inr (parseInt ds * (if u = CHR ''m'' then 60 * 1000 else if u = CHR ''h'' then 60 * 60 * 1000 else 24 * 60 * 60 * 1000))"
proof -
  have "u \<in> set ''mhd''" using assms(2) unfolding durationMatch_Some by simp
  then have "u = CHR ''m'' \<or> u = CHR ''h'' \<or> u = CHR ''d''" by simp
  then show ?thesis using assms by (auto simp: Let_def)
qed

lemma parseDelay_timed:
  assumes "s \<noteq> ''0''" "durationMatch (trim s) = None"
  shows "parseDelay c (DStr s) = parseTimed c s (trim s)"
  using assms by simp

lemma parseDelay_accepts: "delay_literal s \<Longrightarrow> \<exists>v. parseDelay c (DStr s) = Inr v"
proof (cases "s = ''0''")
  case True then show ?thesis by simp
next
  case False
  assume lit: "delay_literal s"
  show ?thesis
  proof (cases "durationMatch (trim s)")
    case (Some y)
    obtain ds u where y: "y = (ds, u)" by (cases y)
    show ?thesis using parseDelay_duration[OF False Some[unfolded y]] by blast
  next
    case None
    then have nd: "\<not> duration_literal (trim s)" using durationMatch_literal[of "trim s"] by simp
    have eq: "parseDelay c (DStr s) = parseTimed c s (trim s)" by (rule parseDelay_timed[OF False None])
    from lit False nd consider "days_time_literal (trim s)" | "weekday_time_literal (trim s)"
      by (auto simp: delay_literal_def)
    then show ?thesis
    proof cases
      case 1
      then obtain x where "durationTimeMatch (trim s) = Some x"
        using durationTimeMatch_literal[of "trim s"] by auto
      then show ?thesis unfolding eq parseTimed_def by (cases x) simp
    next
      case 2
      then obtain x where m: "weekdayMatch (trim s) = Some x"
        using weekdayMatch_literal[of "trim s"] by auto
      show ?thesis
      proof (cases "durationTimeMatch (trim s)")
        case None
        then show ?thesis unfolding eq parseTimed_def using m by (cases x) simp
      next
        case (Some z)
        then show ?thesis unfolding eq parseTimed_def by (cases z) simp
      qed
    qed
  qed
qed

lemma trim_id: "s \<noteq> [] \<Longrightarrow> \<not> is_space (hd s) \<Longrightarrow> \<not> is_space (last s) \<Longrightarrow> trim s = s"
proof -
  assume a: "s \<noteq> []" "\<not> is_space (hd s)" "\<not> is_space (last s)"
  have 1: "dropWhile is_space s = s" using a(1,2) by (cases s) auto
  have "rev (butlast s @ [last s]) = last s # rev (butlast s)" by simp
  then have r: "rev s = last s # rev (butlast s)" using a(1) by simp
  have 2: "dropWhile is_space (rev s) = rev s" unfolding r using a(3) by simp
  show ?thesis by (simp add: trim_def 1 2)
qed

lemma parseDelay_days_time:
  assumes n: "is_number N" and sp: "is_blank sp" and hm: "is_clock_time hh mm"
  shows "parseDelay c (DStr (N @ ''d'' @ sp @ hh @ '':'' @ mm)) =
           Inr (parseInt N * 86400000 + parseInt hh * 3600000 + parseInt mm * 60000)"
proof -
  define s where "s = N @ ''d'' @ sp @ hh @ '':'' @ mm"
  obtain x y where mm: "mm = [x, y]" "is_digit y"
    using hm by (auto simp: is_clock_time_def eval_nat_numeral length_Suc_conv)
  obtain d ds where N: "N = d # ds" "is_digit d" "list_all is_digit N"
    using n by (cases N) (auto simp: is_number_def)
  have ne: "s \<noteq> []" and h: "hd s = d" and l: "last s = y" by (simp_all add: s_def N(1) mm(1))
  have tr: "trim s = s" using trim_id[OF ne] h l N(2) mm(2) digit_not_space by simp
  have n0: "s \<noteq> ''0''" by (simp add: s_def N(1))
  have nd: "\<not> is_digit CHR ''d''" by (simp add: is_digit_def)
  have spn: "sp \<noteq> []" using sp by (simp add: is_blank_def)
  have dm: "durationMatch s = None"
    unfolding durationMatch_def s_def using N(3) nd spn by (simp add: takeWhile_all dropWhile_all)
  have dtm: "durationTimeMatch s = Some (N, hh, mm)"
    unfolding durationTimeMatch_Some s_def using n sp hm by blast
  have "parseDelay c (DStr s) = parseTimed c s s" using parseDelay_timed[of s c] n0 dm tr by simp
  also have "\<dots> = Inr (parseDurationTime N hh mm)" by (simp add: parseTimed_def dtm)
  finally show ?thesis unfolding s_def parseDurationTime_def by (simp add: algebra_simps)
qed

lemmas parseDelay_eval =
  trim_def is_space_def is_digit_def durationMatch_def durationTimeMatch_def weekdayMatch_def
  timeTail_def parseTimed_def parseInt_def digit_val_def parseDurationTime_def parseWeekday_def
  dayNames_def weekdayTarget_def getDay_def Day_def msPerDay_def msPerHour_def msPerMinute_def

lemma clock_time_last: "is_clock_time hh mm \<Longrightarrow> mm \<noteq> [] \<and> is_digit (last mm)"
  by (auto simp: is_clock_time_def eval_nat_numeral length_Suc_conv)

lemma number_hd: "is_number n \<Longrightarrow> n \<noteq> [] \<and> is_digit (hd n)"
  by (cases n) (auto simp: is_number_def)

lemma dayName_hd: "w \<in> set dayNames \<Longrightarrow> w \<noteq> [] \<and> \<not> is_space (hd w)"
  by (auto simp: dayNames_def is_space_def)

lemma unit_not_space: "u \<in> set ''mhd'' \<Longrightarrow> \<not> is_space u"
  by (auto simp: is_space_def)

lemma one_space_blank: "is_blank '' ''"
  by (simp add: is_blank_def is_space_def)

lemma spec_delay_literal_forms:
  assumes "spec_delay_literal s"
  shows "s = ''0''
     \<or> (\<exists>n u. durationMatch s = Some (n, u))
     \<or> (\<exists>n hh mm. durationTimeMatch s = Some (n, hh, mm) \<and> s = n @ ''d '' @ hh @ '':'' @ mm
           \<and> parseInt hh \<le> 23 \<and> parseInt mm \<le> 59)
     \<or> (\<exists>w hh mm. weekdayMatch s = Some (w, hh, mm) \<and> s = w @ '' '' @ hh @ '':'' @ mm
           \<and> parseInt hh \<le> 23 \<and> parseInt mm \<le> 59)"
proof -
  from assms consider (z) "s = ''0''"
    | (d) n u where "is_number n" "u \<in> set ''mhd''" "s = n @ [u]"
    | (t) n hh mm where "is_number n" "time_of_day hh mm" "s = n @ ''d '' @ hh @ '':'' @ mm"
    | (w) w hh mm where "w \<in> set dayNames" "time_of_day hh mm" "s = w @ '' '' @ hh @ '':'' @ mm"
    unfolding spec_delay_literal_def by blast
  then show ?thesis
  proof cases
    case z then show ?thesis by simp
  next
    case d
    then have "durationMatch s = Some (n, u)" unfolding durationMatch_Some by simp
    then show ?thesis by blast
  next
    case t
    have c: "is_clock_time hh mm" "parseInt hh \<le> 23" "parseInt mm \<le> 59"
      using t(2) by (simp_all add: time_of_day_def)
    have "s = n @ ''d'' @ '' '' @ hh @ '':'' @ mm" using t(3) by simp
    then have "durationTimeMatch s = Some (n, hh, mm)"
      unfolding durationTimeMatch_Some using t(1) c(1) one_space_blank by blast
    then show ?thesis using t(3) c(2,3) by blast
  next
    case w
    have c: "is_clock_time hh mm" "parseInt hh \<le> 23" "parseInt mm \<le> 59"
      using w(2) by (simp_all add: time_of_day_def)
    have "weekdayMatch s = Some (w, hh, mm)"
      unfolding weekdayMatch_Some using w(1,3) c(1) one_space_blank by blast
    then show ?thesis using w(3) c(2,3) by blast
  qed
qed

lemma spec_delay_literal_trim:
  assumes "spec_delay_literal s"
  shows "trim s = s"
proof -
  from assms consider (z) "s = ''0''"
    | (d) n u where "is_number n" "u \<in> set ''mhd''" "s = n @ [u]"
    | (t) n hh mm where "is_number n" "time_of_day hh mm" "s = n @ ''d '' @ hh @ '':'' @ mm"
    | (w) w hh mm where "w \<in> set dayNames" "time_of_day hh mm" "s = w @ '' '' @ hh @ '':'' @ mm"
    unfolding spec_delay_literal_def by blast
  then show ?thesis
  proof cases
    case z then show ?thesis by (simp add: trim_def is_space_def)
  next
    case d
    have "s \<noteq> []" "hd s = hd n" "last s = u" using d(3) number_hd[OF d(1)] by simp_all
    then show ?thesis
      using trim_id[of s] number_hd[OF d(1)] unit_not_space[OF d(2)] digit_not_space by simp
  next
    case t
    have c: "is_clock_time hh mm" using t(2) by (simp add: time_of_day_def)
    have "s \<noteq> []" "hd s = hd n" "last s = last mm"
      using t(3) number_hd[OF t(1)] clock_time_last[OF c] by simp_all
    then show ?thesis
      using trim_id[of s] number_hd[OF t(1)] clock_time_last[OF c] digit_not_space by simp
  next
    case w
    have c: "is_clock_time hh mm" using w(2) by (simp add: time_of_day_def)
    have "s \<noteq> []" "hd s = hd w" "last s = last mm"
      using w(3) dayName_hd[OF w(1)] clock_time_last[OF c] by simp_all
    then show ?thesis
      using trim_id[of s] dayName_hd[OF w(1)] clock_time_last[OF c] digit_not_space by simp
  qed
qed

lemma spec_delay_literal_accepted:
  assumes "spec_delay_literal s"
  shows "delay_literal s"
proof -
  have tr: "trim s = s" by (rule spec_delay_literal_trim[OF assms])
  from spec_delay_literal_forms[OF assms] consider (z) "s = ''0''"
    | (d) "durationMatch s \<noteq> None" | (t) "durationTimeMatch s \<noteq> None" | (w) "weekdayMatch s \<noteq> None"
    by auto
  then show ?thesis
  proof cases
    case z then show ?thesis by (simp add: delay_literal_def)
  next
    case d then show ?thesis unfolding delay_literal_def tr durationMatch_literal by simp
  next
    case t then show ?thesis unfolding delay_literal_def tr durationTimeMatch_literal by simp
  next
    case w then show ?thesis unfolding delay_literal_def tr weekdayMatch_literal by simp
  qed
qed

lemma parseDelay_rejects_text:
  "\<not> delay_literal s \<Longrightarrow>
     parseDelay c (DStr s) = Inl (Error (''Invalid delay format: '' @ [CHR 0x27] @ s @ [CHR 0x27]))"
  using parseDelay_rejects[of s c] by (simp add: invalidDelay_def)

lemma not_spec_delay_literal:
  assumes "s \<noteq> ''0''" "durationMatch s = None"
    and "case durationTimeMatch s of None \<Rightarrow> True
         | Some (n, hh, mm) \<Rightarrow> \<not> (s = n @ ''d '' @ hh @ '':'' @ mm \<and> parseInt hh \<le> 23 \<and> parseInt mm \<le> 59)"
    and "case weekdayMatch s of None \<Rightarrow> True
         | Some (w, hh, mm) \<Rightarrow> \<not> (s = w @ '' '' @ hh @ '':'' @ mm \<and> parseInt hh \<le> 23 \<and> parseInt mm \<le> 59)"
  shows "\<not> spec_delay_literal s"
proof
  assume "spec_delay_literal s"
  from spec_delay_literal_forms[OF this] assms(1,2)
  consider (t) n hh mm where "durationTimeMatch s = Some (n, hh, mm)" "s = n @ ''d '' @ hh @ '':'' @ mm"
           "parseInt hh \<le> 23" "parseInt mm \<le> 59"
    | (w) w hh mm where "weekdayMatch s = Some (w, hh, mm)" "s = w @ '' '' @ hh @ '':'' @ mm"
           "parseInt hh \<le> 23" "parseInt mm \<le> 59"
    by auto
  then show False
  proof cases
    case t then show False using assms(3) by simp
  next
    case w then show False using assms(4) by simp
  qed
qed

text \<open>
  C5. \<^verbatim>\<open>parseDelay\<close> maps \<open>0\<close>, \<open>"0"\<close> and \<^verbatim>\<open>null\<close> to \<open>0\<close> and passes a number through
  unchanged; \<open>"30m"\<close>, \<open>"2h"\<close>, \<open>"1d"\<close> and \<open>"1d 09:00"\<close> give 1800000, 7200000, 86400000 and
  1 * 86400000 + 9 * 3600000; every literal of the form \<open><N>d HH:MM\<close> is the sum of \<open>N\<close>
  days, \<open>HH\<close> hours and \<open>MM\<close> minutes, as long as that sum is a safe integer. A string
  fails exactly when it is not a delay literal as \<^verbatim>\<open>parseDelay\<close> reads them (white
  space around the literal removed, one or more white-space characters before \<open>HH:MM\<close>,
  any two digits for \<open>HH\<close> and for \<open>MM\<close>), and then with the \<^verbatim>\<open>Error\<close> whose message is
  \<open>Invalid delay format: '<string>'\<close>, as \<open>"tomorrow"\<close> and \<open>"5x"\<close> do; every literal
  of the forms of section 4.1 is such a delay literal.
\<close>

theorem parseDelay_forms:
  "parseDelay c (DNum 0) = Inr 0 \<and> parseDelay c (DStr ''0'') = Inr 0 \<and> parseDelay c DNull = Inr 0
   \<and> parseDelay c (DNum n) = Inr n
   \<and> parseDelay c (DStr ''30m'') = Inr 1800000
   \<and> parseDelay c (DStr ''2h'') = Inr 7200000
   \<and> parseDelay c (DStr ''1d'') = Inr 86400000
   \<and> parseDelay c (DStr ''1d 09:00'') = Inr (1 * 86400000 + 9 * 3600000)
   \<and> (is_number N \<and> is_blank sp \<and> is_clock_time hh mm
        \<and> isSafeInteger (parseInt N * 86400000 + parseInt hh * 3600000 + parseInt mm * 60000) \<longrightarrow>
        parseDelay c (DStr (N @ ''d'' @ sp @ hh @ '':'' @ mm)) =
          Inr (parseInt N * 86400000 + parseInt hh * 3600000 + parseInt mm * 60000))
   \<and> (\<not> delay_literal s \<longrightarrow>
        parseDelay c (DStr s) = Inl (Error (''Invalid delay format: '' @ [CHR 0x27] @ s @ [CHR 0x27])))
   \<and> (delay_literal s \<longrightarrow> (\<exists>v. parseDelay c (DStr s) = Inr v))
   \<and> (spec_delay_literal s \<longrightarrow> delay_literal s)
   \<and> parseDelay c (DStr ''tomorrow'') =
        Inl (Error (''Invalid delay format: '' @ [CHR 0x27] @ ''tomorrow'' @ [CHR 0x27]))
   \<and> parseDelay c (DStr ''5x'') = Inl (Error (''Invalid delay format: '' @ [CHR 0x27] @ ''5x'' @ [CHR 0x27]))"
proof -
  have 1: "parseDelay c (DStr ''30m'') = Inr 1800000" by (simp add: parseDelay_eval)
  have 2: "parseDelay c (DStr ''2h'') = Inr 7200000" by (simp add: parseDelay_eval)
  have 3: "parseDelay c (DStr ''1d'') = Inr 86400000" by (simp add: parseDelay_eval)
  have 4: "parseDelay c (DStr ''1d 09:00'') = Inr (1 * 86400000 + 9 * 3600000)" by (simp add: parseDelay_eval)
  have 5: "parseDelay c (DStr ''tomorrow'') =
        Inl (Error (''Invalid delay format: '' @ [CHR 0x27] @ ''tomorrow'' @ [CHR 0x27]))"
    by (simp add: parseDelay_eval invalidDelay_def)
  have 6: "parseDelay c (DStr ''5x'') = Inl (Error (''Invalid delay format: '' @ [CHR 0x27] @ ''5x'' @ [CHR 0x27]))"
    by (simp add: parseDelay_eval invalidDelay_def)
  show ?thesis
    using 1 2 3 4 5 6 parseDelay_days_time[of N sp hh mm c] parseDelay_rejects_text[of s c]
      parseDelay_accepts[of s c] spec_delay_literal_accepted[of s]
    by simp
qed

theorem parseDelay_forms_witness:
  "is_number ''2'' \<and> is_blank '' '' \<and> is_clock_time ''14'' ''30'' \<and> isSafeInteger 225000000
   \<and> parseDelay \<lparr>now = 0, tza = 0\<rparr> (DStr ''2d 14:30'') = Inr 225000000
   \<and> \<not> delay_literal ''5x''
   \<and> parseDelay \<lparr>now = 0, tza = 0\<rparr> (DStr ''5x'') =
        Inl (Error (''Invalid delay format: '' @ [CHR 0x27] @ ''5x'' @ [CHR 0x27]))
   \<and> spec_delay_literal ''30m'' \<and> delay_literal ''30m''
   \<and> parseDelay \<lparr>now = 0, tza = 0\<rparr> (DStr ''30m'') = Inr 1800000"
proof -
  have a: "is_number ''2'' \<and> is_blank '' '' \<and> is_clock_time ''14'' ''30''"
    by (simp add: is_number_def is_blank_def is_clock_time_def is_digit_def is_space_def)
  have e: "parseInt ''2'' * 86400000 + parseInt ''14'' * 3600000 + parseInt ''30'' * 60000 = 225000000"
    by (simp add: parseInt_def digit_val_def)
  have f: "isSafeInteger 225000000" by (simp add: isSafeInteger_def)
  have n: "is_number ''30''" by (simp add: is_number_def is_digit_def)
  have "''30m'' = ''30'' @ [CHR ''m'']" by simp
  then have "\<exists>n u. is_number n \<and> u \<in> set ''mhd'' \<and> ''30m'' = n @ [u]" using n by (intro exI[of _ "''30''"] exI[of _ "CHR ''m''"]) simp
  then have g: "spec_delay_literal ''30m''" unfolding spec_delay_literal_def by (intro disjI2 disjI1)
  have x: "durationMatch (trim ''5x'') = None" "durationTimeMatch (trim ''5x'') = None"
    "weekdayMatch (trim ''5x'') = None"
    by (simp_all add: parseDelay_eval)
  have h1: "\<not> duration_literal (trim ''5x'')" using x(1) unfolding durationMatch_None .
  have h2: "\<not> days_time_literal (trim ''5x'')" using x(2) unfolding durationTimeMatch_None .
  have h3: "\<not> weekday_time_literal (trim ''5x'')" using x(3) unfolding weekdayMatch_None .
  have h: "\<not> delay_literal ''5x''" unfolding delay_literal_def using h1 h2 h3 by simp
  note T1 = parseDelay_forms[of "\<lparr>now = 0, tza = 0\<rparr>" 0 "''2''" "'' ''" "''14''" "''30''" "''5x''"]
  note T2 = parseDelay_forms[of "\<lparr>now = 0, tza = 0\<rparr>" 0 "''2''" "'' ''" "''14''" "''30''" "''30m''"]
  show ?thesis
    using a e f g h T1 T2 by simp
qed

text \<open>
  Against C5 as the specification words it (\<open>any other literal fails\<close>): three strings
  outside the forms of section 4.1 that \<^verbatim>\<open>parseDelay\<close> reads as delays. The first has
  a space in front, the second two spaces before the time, the third a time \<open>99:99\<close>
  that is no time of day.
\<close>

theorem parseDelay_lenient:
  "\<not> spec_delay_literal '' 30m''
   \<and> parseDelay \<lparr>now = 0, tza = 0\<rparr> (DStr '' 30m'') = Inr 1800000
   \<and> \<not> spec_delay_literal ''1d  09:00''
   \<and> parseDelay \<lparr>now = 0, tza = 0\<rparr> (DStr ''1d  09:00'') = Inr 118800000
   \<and> \<not> spec_delay_literal ''1d 99:99''
   \<and> parseDelay \<lparr>now = 0, tza = 0\<rparr> (DStr ''1d 99:99'') = Inr 448740000"
proof -
  have a: "\<not> spec_delay_literal '' 30m''"
    by (rule not_spec_delay_literal) (simp_all add: parseDelay_eval)
  have b: "\<not> spec_delay_literal ''1d  09:00''"
    by (rule not_spec_delay_literal) (simp_all add: parseDelay_eval)
  have c: "\<not> spec_delay_literal ''1d 99:99''"
    by (rule not_spec_delay_literal) (simp_all add: parseDelay_eval)
  have d: "parseDelay \<lparr>now = 0, tza = 0\<rparr> (DStr '' 30m'') = Inr 1800000"
    by (simp add: parseDelay_eval)
  have e: "parseDelay \<lparr>now = 0, tza = 0\<rparr> (DStr ''1d  09:00'') = Inr 118800000"
    by (simp add: parseDelay_eval)
  have f: "parseDelay \<lparr>now = 0, tza = 0\<rparr> (DStr ''1d 99:99'') = Inr 448740000"
    by (simp add: parseDelay_eval)
  show ?thesis by (intro conjI) (rule a, rule d, rule b, rule e, rule c, rule f)
qed

text \<open>
  The weekday form on \<open>"Mon 10:00"\<close>, for any clock: the days ahead are between 1 and 7,
  so the delay is positive and at most 7 days and 10 hours.
\<close>

lemma Mon_1000_match: "weekdayMatch ''Mon 10:00'' = Some (''Mon'', ''10'', ''00'')"
  by (simp add: weekdayMatch_def timeTail_def dayNames_def is_space_def is_digit_def)

lemma parseDelay_Mon_1000:
  "parseDelay c (DStr ''Mon 10:00'') =
     Inr ((if 1 - getDay c \<le> 0 then 1 - getDay c + 7 else 1 - getDay c) * msPerDay + 10 * msPerHour
          - (now c + tza c) mod msPerDay)"
proof -
  have t: "trim ''Mon 10:00'' = ''Mon 10:00''" by (simp add: trim_def is_space_def)
  have a: "durationMatch ''Mon 10:00'' = None" by (simp add: durationMatch_def is_digit_def)
  have b: "durationTimeMatch ''Mon 10:00'' = None" by (simp add: durationTimeMatch_def is_digit_def)
  have i: "indexOf dayNames ''Mon'' = 1" by (simp add: dayNames_def)
  have p: "parseInt ''10'' = 10" "parseInt ''00'' = 0" by (simp_all add: parseInt_def digit_val_def)
  have d: "Day (now c + tza c) * msPerDay = (now c + tza c) - (now c + tza c) mod msPerDay"
    by (simp add: Day_def minus_mod_eq_div_mult)
  have "parseDelay c (DStr ''Mon 10:00'') = Inr (parseWeekday c ''Mon'' ''10'' ''00'')"
    by (simp add: t a b Mon_1000_match parseTimed_def)
  also have "parseWeekday c ''Mon'' ''10'' ''00'' =
      (if 1 - getDay c \<le> 0 then 1 - getDay c + 7 else 1 - getDay c) * msPerDay + 10 * msPerHour
          - (now c + tza c) mod msPerDay"
    unfolding parseWeekday_def Let_def i p weekdayTarget_def using d by (simp add: algebra_simps)
  finally show ?thesis .
qed

lemma parseDelay_Mon_1000_bounds:
  "\<exists>v. parseDelay c (DStr ''Mon 10:00'') = Inr v \<and> 0 < v \<and> v \<le> 7 * msPerDay + 10 * msPerHour"
proof -
  have g: "0 \<le> getDay c" "getDay c < 7" by (simp_all add: getDay_def)
  define k where "k = (if 1 - getDay c \<le> 0 then 1 - getDay c + 7 else 1 - getDay c)"
  have k: "1 \<le> k" "k \<le> 7" using g by (auto simp: k_def)
  have m: "0 \<le> (now c + tza c) mod msPerDay" "(now c + tza c) mod msPerDay < msPerDay"
    by (simp_all add: msPerDay_def)
  have v: "parseDelay c (DStr ''Mon 10:00'') = Inr (k * msPerDay + 10 * msPerHour - (now c + tza c) mod msPerDay)"
    unfolding k_def by (rule parseDelay_Mon_1000)
  have "msPerDay \<le> k * msPerDay" using k(1) by (simp add: msPerDay_def)
  then have lo: "0 < k * msPerDay + 10 * msPerHour - (now c + tza c) mod msPerDay"
    using m(2) by (simp add: msPerHour_def)
  have "k * msPerDay \<le> 7 * msPerDay" using k(2) by (simp add: msPerDay_def)
  then have hi: "k * msPerDay + 10 * msPerHour - (now c + tza c) mod msPerDay \<le> 7 * msPerDay + 10 * msPerHour"
    using m(1) by simp
  show ?thesis using v lo hi by blast
qed

text \<open>
  C3. On a Monday at 09:00 (the epoch's day 4, local time equal to UTC), the literal
  \<open>"Mon 10:00"\<close> is one hour ahead. \<^verbatim>\<open>parseDelay\<close> compares the days only, finds the
  target day equal to the current one and adds 7 days: it returns 7 days and one hour,
  608400000 ms, which is above 604800000.
\<close>

theorem parseDelay_weekday_same_day:
  "getDay \<lparr>now = 378000000, tza = 0\<rparr> = 1
   \<and> parseDelay \<lparr>now = 378000000, tza = 0\<rparr> (DStr ''Mon 10:00'') = Inr 608400000
   \<and> \<not> (608400000 \<le> (604800000 :: int))"
  by (simp add: parseDelay_eval)


section \<open>Content validation: proofs\<close>

lemma trim_Nil: "trim [] = []"
  by (simp add: trim_def)

lemma validate_valid: "valid (validate raw) = (has_text raw \<or> has_media_reference raw)"
proof -
  have "(case text' raw of None \<Rightarrow> False | Some t \<Rightarrow> t \<noteq> [] \<and> length (trim t) > 0) = has_text raw"
    using trim_Nil by (auto simp: has_text_def split: option.splits)
  then show ?thesis
    by (simp add: validate_def Let_def has_media_reference_def)
qed

lemma validate_errors: "errors (validate raw) = (if valid (validate raw) then [] else [validationMessage])"
  by (simp add: validate_def Let_def)

text \<open>
  C9. \<^verbatim>\<open>validate\<close> returns valid exactly when the content has non-empty trimmed text or a
  media reference (photo, video, document or audio); otherwise it returns exactly one
  error, whose text mentions text and media. \<open>{}\<close> and \<open>{text: ""}\<close> are invalid,
  \<open>{photo: "u"}\<close> is valid.
\<close>

theorem validate_iff:
  "valid (validate raw) = (has_text raw \<or> has_media_reference raw)
   \<and> (valid (validate raw) \<longrightarrow> errors (validate raw) = [])
   \<and> (\<not> valid (validate raw) \<longrightarrow> errors (validate raw) = [validationMessage])
   \<and> str_includes validationMessage ''text'' \<and> str_includes validationMessage ''media''
   \<and> \<not> valid (validate emptyContent)
   \<and> valid (validate (emptyContent\<lparr>photo := Some ''u''\<rparr>))
   \<and> \<not> valid (validate (emptyContent\<lparr>text' := Some ''''\<rparr>))"
proof -
  have a: "str_includes validationMessage ''text''" by (simp add: validationMessage_def)
  have b: "str_includes validationMessage ''media''" by (simp add: validationMessage_def)
  have c: "\<not> valid (validate emptyContent)"
    by (simp add: validate_def emptyContent_def truthy_def)
  have d: "valid (validate (emptyContent\<lparr>photo := Some ''u''\<rparr>))"
    by (simp add: validate_def emptyContent_def truthy_def)
  have e: "\<not> valid (validate (emptyContent\<lparr>text' := Some ''''\<rparr>))"
    by (simp add: validate_def emptyContent_def truthy_def)
  show ?thesis using a b c d e validate_valid[of raw] validate_errors[of raw] by simp
qed

theorem validate_iff_witness:
  "\<not> valid (validate (emptyContent\<lparr>text' := Some ''  ''\<rparr>))
   \<and> errors (validate (emptyContent\<lparr>text' := Some ''  ''\<rparr>)) = [validationMessage]
   \<and> valid (validate (emptyContent\<lparr>audio := Some ''a.mp3''\<rparr>))
   \<and> errors (validate (emptyContent\<lparr>audio := Some ''a.mp3''\<rparr>)) = []"
proof -
  have a: "\<not> valid (validate (emptyContent\<lparr>text' := Some ''  ''\<rparr>))"
    by (simp add: validate_def emptyContent_def truthy_def trim_def is_space_def)
  have b: "valid (validate (emptyContent\<lparr>audio := Some ''a.mp3''\<rparr>))"
    by (simp add: validate_def emptyContent_def truthy_def)
  show ?thesis
    using a b validate_iff[of "emptyContent\<lparr>text' := Some ''  ''\<rparr>"]
      validate_iff[of "emptyContent\<lparr>audio := Some ''a.mp3''\<rparr>"]
    by blast
qed

section \<open>The condition matcher: proofs\<close>

text \<open>
  C4. Content whose only media reference is an audio file has a media reference, and
  \<^verbatim>\<open>matchesConditions\<close> answers the condition \<open>hasMedia: true\<close> with false and the
  condition \<open>hasMedia: false\<close> with true: it looks at photo, document and video only.
\<close>

theorem matchesConditions_audio:
  "any_media (emptyContent\<lparr>audio := Some ''a.mp3''\<rparr>)
   \<and> matchesConditions (emptyContent\<lparr>audio := Some ''a.mp3''\<rparr>) (Some (onlyHasMedia True)) = False
   \<and> matchesConditions (emptyContent\<lparr>audio := Some ''a.mp3''\<rparr>) (Some (onlyHasMedia False)) = True"
  by (simp add: matchesConditions_def any_media_def emptyContent_def onlyHasMedia_def truthy_def no_keys_def)

lemma matchesConditions_hasMedia:
  "matchesConditions cnt (Some (onlyHasMedia b)) =
     (b = (truthy (photo cnt) \<or> truthy (document cnt) \<or> truthy (video cnt)))"
  by (auto simp: matchesConditions_def onlyHasMedia_def truthy_def no_keys_def)

section \<open>Rule evaluation: proofs\<close>

text \<open>
  C7. For content that fails validation, \<^verbatim>\<open>evaluateRules\<close> throws the validation error
  with the whole error list, whatever the rules and the registry are: no rule is
  matched, no warning is written, no task is produced.
\<close>

theorem evaluateRules_invalid:
  "(\<not> valid (validate cnt) \<longrightarrow>
      evaluateRules c cnt rules adapters = ([], Inl (SocialAdapterValidationError (errors (validate cnt)))))
   \<and> (\<not> has_text cnt \<and> \<not> has_media_reference cnt \<longrightarrow>
      evaluateRules c cnt rules adapters = ([], Inl (SocialAdapterValidationError [validationMessage])))"
  using validate_valid[of cnt] validate_errors[of cnt] by (simp add: evaluateRules_def Let_def)

theorem evaluateRules_invalid_witness:
  "\<not> valid (validate emptyContent) \<and> \<not> has_text emptyContent \<and> \<not> has_media_reference emptyContent
   \<and> evaluateRules \<lparr>now = 0, tza = 0\<rparr> emptyContent [exampleRule] [''dummy'' \<mapsto> 7] =
       ([], Inl (SocialAdapterValidationError [validationMessage]))
   \<and> errors (validate emptyContent) = [validationMessage]"
proof -
  have a: "\<not> has_text emptyContent \<and> \<not> has_media_reference emptyContent"
    by (simp add: has_text_def has_media_reference_def emptyContent_def truthy_def)
  have b: "\<not> valid (validate emptyContent)" using a validate_valid[of emptyContent] by simp
  show ?thesis
    using a b
      evaluateRules_invalid[of emptyContent "\<lparr>now = 0, tza = 0\<rparr>" "[exampleRule]" "[''dummy'' \<mapsto> 7]"]
      validate_errors[of emptyContent]
    by simp
qed


lemma publishLoop_drop:
  "name r' = name r \<Longrightarrow>
   snd (publishLoop c A cnt r tgs (w, ts)) = snd (publishLoop c A cnt r' (filter (registered A) tgs) (w', ts))"
proof (induction tgs arbitrary: w w' ts)
  case Nil
  show ?case by simp
next
  case (Cons tg tgs)
  show ?case
  proof (cases "A (target_adapter tg)")
    case None
    then show ?thesis using Cons.IH[OF Cons.prems] by (simp add: registered_def)
  next
    case (Some a)
    show ?thesis
    proof (cases "parseDelay c (target_delay tg)")
      case (Inl e)
      then show ?thesis using Some by (simp add: registered_def)
    next
      case (Inr d)
      then show ?thesis using Some Cons.IH[OF Cons.prems] Cons.prems by (simp add: registered_def)
    qed
  qed
qed

lemma publishLoop_warns:
  "publishLoop c A cnt r tgs (w, ts) = (w', Inr ts') \<Longrightarrow>
   w' = w @ map (\<lambda>tg. notFoundWarning (target_adapter tg) (name r)) (filter (\<lambda>tg. \<not> registered A tg) tgs)
   \<and> map (\<lambda>t. Some (adapter t)) ts' =
       map (\<lambda>t. Some (adapter t)) ts @ map (\<lambda>tg. A (target_adapter tg)) (filter (registered A) tgs)"
proof (induction tgs arbitrary: w ts)
  case Nil
  then show ?case by simp
next
  case (Cons tg tgs)
  show ?case
  proof (cases "A (target_adapter tg)")
    case None
    then have "publishLoop c A cnt r tgs (w @ [notFoundWarning (target_adapter tg) (name r)], ts) = (w', Inr ts')"
      using Cons.prems by simp
    from Cons.IH[OF this] None show ?thesis by (simp add: registered_def)
  next
    case (Some a)
    show ?thesis
    proof (cases "parseDelay c (target_delay tg)")
      case (Inl e)
      then show ?thesis using Some Cons.prems by simp
    next
      case (Inr d)
      define t where "t = \<lparr>adapter = a, content = cnt, delayMs = d,
          channel = (if truthy (target_channel tg) then target_channel tg else None), ruleName = name r\<rparr>"
      have "publishLoop c A cnt r tgs (w, ts @ [t]) = (w', Inr ts')"
        using Cons.prems Some Inr by (simp add: t_def)
      from Cons.IH[OF this] Some show ?thesis by (simp add: registered_def t_def)
    qed
  qed
qed

lemma rulesLoop_drop:
  "snd (rulesLoop c A cnt rules (w, ts)) = snd (rulesLoop c A cnt (dropUnregistered A rules) (w', ts))"
proof (induction rules arbitrary: w w' ts)
  case Nil
  show ?case by (simp add: dropUnregistered_def)
next
  case (Cons r rules)
  define r' where "r' = r\<lparr>rule_publish := filter (registered A) (rule_publish r)\<rparr>"
  have d: "dropUnregistered A (r # rules) = r' # dropUnregistered A rules"
    by (simp add: dropUnregistered_def r'_def)
  have r': "name r' = name r" "if' r' = if' r" "rule_publish r' = filter (registered A) (rule_publish r)"
    by (simp_all add: r'_def)
  show ?case
  proof (cases "matchesConditions cnt (if' r)")
    case False
    then show ?thesis unfolding d using Cons.IH r'(2) by simp
  next
    case True
    obtain w1 x1 where p1: "publishLoop c A cnt r (rule_publish r) (w, ts) = (w1, x1)" by (cases "publishLoop c A cnt r (rule_publish r) (w, ts)")
    obtain w2 x2 where p2: "publishLoop c A cnt r' (rule_publish r') (w', ts) = (w2, x2)" by (cases "publishLoop c A cnt r' (rule_publish r') (w', ts)")
    have "x1 = x2" using publishLoop_drop[OF r'(1), of c A cnt "rule_publish r" w ts w'] p1 p2 r'(3) by simp
    then have p2': "publishLoop c A cnt r' (rule_publish r') (w', ts) = (w2, x1)" using p2 by simp
    show ?thesis
    proof (cases x1)
      case (Inl e)
      then show ?thesis unfolding d using True r'(2) p1 p2' by simp
    next
      case (Inr ts1)
      then show ?thesis unfolding d using True r'(2) p1 p2' Cons.IH[of w1 ts1 w2] by simp
    qed
  qed
qed

lemma rulesLoop_warns:
  "rulesLoop c A cnt rules (w, ts) = (w', Inr ts') \<Longrightarrow>
   w' = w @ expectedWarnings A cnt rules
   \<and> map (\<lambda>t. Some (adapter t)) ts' =
       map (\<lambda>t. Some (adapter t)) ts @ map (\<lambda>tg. A (target_adapter tg)) (registeredTargets A cnt rules)"
proof (induction rules arbitrary: w ts)
  case Nil
  then show ?case by (simp add: expectedWarnings_def registeredTargets_def)
next
  case (Cons r rules)
  show ?case
  proof (cases "matchesConditions cnt (if' r)")
    case False
    then show ?thesis using Cons.IH Cons.prems by (simp add: expectedWarnings_def registeredTargets_def)
  next
    case True
    obtain w1 x1 where p1: "publishLoop c A cnt r (rule_publish r) (w, ts) = (w1, x1)" by (cases "publishLoop c A cnt r (rule_publish r) (w, ts)")
    show ?thesis
    proof (cases x1)
      case (Inl e)
      then show ?thesis using Cons.prems True p1 by simp
    next
      case (Inr ts1)
      then have rest: "rulesLoop c A cnt rules (w1, ts1) = (w', Inr ts')" using Cons.prems True p1 by simp
      from publishLoop_warns[OF p1[unfolded Inr]] Cons.IH[OF rest] True
      show ?thesis by (simp add: expectedWarnings_def registeredTargets_def)
    qed
  qed
qed

lemma dropUnregistered_all:
  "\<forall>r \<in> set rules. \<forall>tg \<in> set (rule_publish r). \<not> registered A tg \<Longrightarrow>
   rulesLoop c A cnt (dropUnregistered A rules) (w, ts) = (w, Inr ts)"
proof (induction rules)
  case Nil
  show ?case by (simp add: dropUnregistered_def)
next
  case (Cons r rules)
  have "filter (registered A) (rule_publish r) = []" using Cons.prems by (simp add: filter_empty_conv)
  then show ?case using Cons by (simp add: dropUnregistered_def)
qed

lemma exampleRule_eval:
  "evaluateRules \<lparr>now = 0, tza = 0\<rparr> (textContent ''hi'') [exampleRule] [''dummy'' \<mapsto> 7] =
     ([notFoundWarning ''nonexistent'' ''r''],
      Inr [\<lparr>adapter = 7, content = textContent ''hi'', delayMs = 1800000, channel = None, ruleName = ''r''\<rparr>])"
  by (simp add: evaluateRules_def validate_def textContent_def truthy_def exampleRule_def
        matchesConditions_def parseDelay_eval)

text \<open>
  C8. A destination whose adapter identifier is not in the registry is skipped: the
  outcome of \<^verbatim>\<open>evaluateRules\<close> (the tasks, or the exception of another destination) is
  the outcome for the rules without the unregistered destinations; an evaluation that
  returns has written one warning for each unregistered destination of a matching rule
  and produced one task for each registered one, in order; and rules that name
  unregistered adapters only give no task and no exception.
\<close>

theorem evaluateRules_unregistered:
  "snd (evaluateRules c cnt rules adapters) = snd (evaluateRules c cnt (dropUnregistered adapters rules) adapters)
   \<and> (evaluateRules c cnt rules adapters = (warns, Inr tasks) \<longrightarrow>
        warns = expectedWarnings adapters cnt rules
        \<and> map (\<lambda>t. Some (adapter t)) tasks =
            map (\<lambda>tg. adapters (target_adapter tg)) (registeredTargets adapters cnt rules))
   \<and> (valid (validate cnt) \<and> (\<forall>r \<in> set rules. \<forall>tg \<in> set (rule_publish r). adapters (target_adapter tg) = None)
        \<longrightarrow> snd (evaluateRules c cnt rules adapters) = Inr [])"
proof -
  have 1: "snd (evaluateRules c cnt rules adapters) = snd (evaluateRules c cnt (dropUnregistered adapters rules) adapters)"
    using rulesLoop_drop[of c adapters cnt rules "[]" "[]" "[]"] by (simp add: evaluateRules_def Let_def)
  have 2: "evaluateRules c cnt rules adapters = (warns, Inr tasks) \<longrightarrow>
        warns = expectedWarnings adapters cnt rules
        \<and> map (\<lambda>t. Some (adapter t)) tasks =
            map (\<lambda>tg. adapters (target_adapter tg)) (registeredTargets adapters cnt rules)"
    using rulesLoop_warns[of c adapters cnt rules "[]" "[]" warns tasks]
    by (auto simp: evaluateRules_def Let_def split: if_splits)
  have 3: "valid (validate cnt) \<and> (\<forall>r \<in> set rules. \<forall>tg \<in> set (rule_publish r). adapters (target_adapter tg) = None)
        \<longrightarrow> snd (evaluateRules c cnt rules adapters) = Inr []"
  proof
    assume a: "valid (validate cnt) \<and> (\<forall>r \<in> set rules. \<forall>tg \<in> set (rule_publish r). adapters (target_adapter tg) = None)"
    then have "\<forall>r \<in> set rules. \<forall>tg \<in> set (rule_publish r). \<not> registered adapters tg"
      by (simp add: registered_def)
    from dropUnregistered_all[OF this, of c cnt "[]" "[]"] a
    have "snd (evaluateRules c cnt (dropUnregistered adapters rules) adapters) = Inr []"
      by (simp add: evaluateRules_def Let_def)
    then show "snd (evaluateRules c cnt rules adapters) = Inr []" using 1 by simp
  qed
  show ?thesis using 1 2 3 by blast
qed

theorem evaluateRules_unregistered_witness:
  "evaluateRules \<lparr>now = 0, tza = 0\<rparr> (textContent ''hi'') [exampleRule] [''dummy'' \<mapsto> 7] =
     ([notFoundWarning ''nonexistent'' ''r''],
      Inr [\<lparr>adapter = 7, content = textContent ''hi'', delayMs = 1800000, channel = None, ruleName = ''r''\<rparr>])
   \<and> [notFoundWarning ''nonexistent'' ''r''] = expectedWarnings [''dummy'' \<mapsto> 7] (textContent ''hi'') [exampleRule]
   \<and> valid (validate (textContent ''hi''))
   \<and> snd (evaluateRules \<lparr>now = 0, tza = 0\<rparr> (textContent ''hi'') [exampleRule] Map.empty) = Inr []"
proof -
  have v: "valid (validate (textContent ''hi''))"
    by (simp add: validate_def textContent_def truthy_def trim_def is_space_def)
  have u: "\<forall>r \<in> set [exampleRule]. \<forall>tg \<in> set (rule_publish r). Map.empty (target_adapter tg) = None"
    by simp
  have w: "[notFoundWarning ''nonexistent'' ''r''] = expectedWarnings [''dummy'' \<mapsto> 7] (textContent ''hi'') [exampleRule]"
    using exampleRule_eval
      evaluateRules_unregistered[where c = "\<lparr>now = 0, tza = 0\<rparr>" and cnt = "textContent ''hi''"
        and rules = "[exampleRule]" and adapters = "[''dummy'' \<mapsto> 7]"
        and warns = "[notFoundWarning ''nonexistent'' ''r'']"
        and tasks = "[\<lparr>adapter = 7, content = textContent ''hi'', delayMs = 1800000, channel = None, ruleName = ''r''\<rparr>]"]
    by blast
  have e: "snd (evaluateRules \<lparr>now = 0, tza = 0\<rparr> (textContent ''hi'') [exampleRule] Map.empty) = Inr []"
    using v u
      evaluateRules_unregistered[where c = "\<lparr>now = 0, tza = 0\<rparr>" and cnt = "textContent ''hi''"
        and rules = "[exampleRule]" and adapters = "Map.empty"]
    by blast
  show ?thesis using exampleRule_eval v w e by blast
qed


section \<open>The adapter protocol: proofs\<close>

text \<open>
  C6. \<^verbatim>\<open>update\<close> on a plain \<^verbatim>\<open>SocialAdapter\<close>, which has no \<^verbatim>\<open>edit\<close> capability, is a
  \<^verbatim>\<open>TypeError\<close> (the class defines no such member) and not the capability error its
  siblings \<^verbatim>\<open>delete\<close> and \<^verbatim>\<open>reply\<close> give; \<^verbatim>\<open>DummyAdapter.update\<close> does not look at
  the capabilities at all and succeeds on an object without \<open>edit\<close>.
\<close>

theorem update_without_edit:
  "\<not> can baseAdapter ''edit''
   \<and> update baseAdapter ''post-1'' (textContent ''new'') = Inl (TypeError ''adapter.update is not a function'')
   \<and> \<not> is_edit_capability_error (TypeError ''adapter.update is not a function'')
   \<and> SocialAdapter_delete baseAdapter ''post-1'' = Inl (notSupported baseAdapter ''deleting posts.'')
   \<and> \<not> can noEditDummy ''edit''
   \<and> isl (update noEditDummy ''p1'' (textContent ''new'')) = False"
  by (simp add: can_def baseAdapter_def noEditDummy_def update_def SocialAdapter_members_def
        DummyAdapter_members_def is_edit_capability_error_def SocialAdapter_delete_def
        DummyAdapter_update_def)


section \<open>The dispatcher: proofs\<close>

lemmas log_defs = verifyCalls_def failedVerify_def publishCalls_def published_def

lemma verifyCalls_append: "verifyCalls (xs @ ys) = verifyCalls xs @ verifyCalls ys"
  by (simp add: verifyCalls_def)

lemma failedVerify_append: "failedVerify (xs @ ys) = failedVerify xs @ failedVerify ys"
  by (simp add: failedVerify_def)

lemma publishCalls_append: "publishCalls (xs @ ys) = publishCalls xs @ publishCalls ys"
  by (simp add: publishCalls_def)

lemma published_append: "published (xs @ ys) = published xs @ published ys"
  by (simp add: published_def)

lemmas log_append = verifyCalls_append failedVerify_append publishCalls_append published_append

lemma unResult_mkResult: "unResult (mkResult h t r) = r"
  by (simp add: unResult_def mkResult_def)

lemma distinct_count_list: "distinct xs \<Longrightarrow> count_list xs a = (if a \<in> set xs then 1 else 0)"
  by (induction xs) auto

lemma verifyLoop_props:
  "verifyLoop h ts V st = (V', st') \<Longrightarrow>
   \<exists>X. V' = V @ X \<and> set (map fst X) = adapter ` set ts - set (map fst V) \<and> distinct (map fst X)
     \<and> verifyCalls (log st') = verifyCalls (log st) @ map fst X
     \<and> failedVerify (log st') = failedVerify (log st) @ map fst (filter (\<lambda>(a, ok). \<not> ok) X)
     \<and> publishCalls (log st') = publishCalls (log st) \<and> published (log st') = published (log st)"
proof (induction ts arbitrary: V st)
  case Nil
  then show ?case by simp
next
  case (Cons t ts)
  show ?case
  proof (cases "adapter t \<in> set (map fst V)")
    case True
    then have "verifyLoop h ts V st = (V', st')" using Cons.prems by simp
    from Cons.IH[OF this] obtain X where X: "V' = V @ X" "set (map fst X) = adapter ` set ts - set (map fst V)"
      "distinct (map fst X)" "verifyCalls (log st') = verifyCalls (log st) @ map fst X"
      "failedVerify (log st') = failedVerify (log st) @ map fst (filter (\<lambda>(a, ok). \<not> ok) X)"
      "publishCalls (log st') = publishCalls (log st)" "published (log st') = published (log st)"
      by blast
    have "set (map fst X) = adapter ` set (t # ts) - set (map fst V)" using X(2) True by auto
    with X show ?thesis by blast
  next
    case False
    obtain x w where call: "verify (h (adapter t)) (world st) = (x, w)"
      by (cases "verify (h (adapter t)) (world st)")
    define b where "b = (case x of Inr v \<Rightarrow> True | Inl e \<Rightarrow> False)"
    define st1 where "st1 = (case x of
        Inr v \<Rightarrow> \<lparr>log = log st @ [VerifyCall (adapter t) (Inr v)], world = w\<rparr>
      | Inl err \<Rightarrow> \<lparr>log = log st @ [VerifyCall (adapter t) (Inl (ErrorObject err)),
                                    Warn (verifyWarning (adapter_id (h (adapter t))) err)], world = w\<rparr>)"
    have step: "verifyLoop h ts (V @ [(adapter t, b)]) st1 = (V', st')"
      using Cons.prems False call by (cases x) (simp_all add: b_def st1_def)
    have l1: "verifyCalls (log st1) = verifyCalls (log st) @ [adapter t]"
      "failedVerify (log st1) = failedVerify (log st) @ (if b then [] else [adapter t])"
      "publishCalls (log st1) = publishCalls (log st)" "published (log st1) = published (log st)"
      by (cases x; simp add: st1_def b_def log_defs)+
    from Cons.IH[OF step] obtain X where X: "V' = (V @ [(adapter t, b)]) @ X"
      "set (map fst X) = adapter ` set ts - set (map fst (V @ [(adapter t, b)]))"
      "distinct (map fst X)" "verifyCalls (log st') = verifyCalls (log st1) @ map fst X"
      "failedVerify (log st') = failedVerify (log st1) @ map fst (filter (\<lambda>(a, ok). \<not> ok) X)"
      "publishCalls (log st') = publishCalls (log st1)" "published (log st') = published (log st1)"
      by blast
    let ?X = "(adapter t, b) # X"
    have 1: "V' = V @ ?X" using X(1) by simp
    have 2: "set (map fst ?X) = adapter ` set (t # ts) - set (map fst V)" using X(2) False by auto
    have 3: "distinct (map fst ?X)" using X(2,3) by auto
    have 4: "verifyCalls (log st') = verifyCalls (log st) @ map fst ?X" using X(4) l1(1) by simp
    have 5: "failedVerify (log st') = failedVerify (log st) @ map fst (filter (\<lambda>(a, ok). \<not> ok) ?X)"
      using X(5) l1(2) by simp
    have 6: "publishCalls (log st') = publishCalls (log st)" "published (log st') = published (log st)"
      using X(6,7) l1(3,4) by simp_all
    from 1 2 3 4 5 6 show ?thesis by blast
  qed
qed

lemma verifyGate_props:
  assumes "verifyGate h tasks \<lparr>log = [], world = w\<rparr> = (tasks', st')"
  shows "tasks' = survivors (log st') tasks" "distinct (verifyCalls (log st'))"
    "set (verifyCalls (log st')) = adapter ` set tasks" "publishCalls (log st') = []" "published (log st') = []"
proof -
  obtain V where vl: "verifyLoop h tasks [] \<lparr>log = [], world = w\<rparr> = (V, st')"
    and t': "tasks' = (let failedAdapters = map fst (filter (\<lambda>(a, ok). \<not> ok) V)
        in if length failedAdapters > 0 then filter (\<lambda>t. adapter t \<notin> set failedAdapters) tasks else tasks)"
    using assms by (auto simp: verifyGate_def Let_def split: prod.splits)
  from verifyLoop_props[OF vl] have X: "set (map fst V) = adapter ` set tasks" "distinct (map fst V)"
      "verifyCalls (log st') = map fst V"
      "failedVerify (log st') = map fst (filter (\<lambda>(a, ok). \<not> ok) V)"
      "publishCalls (log st') = []" "published (log st') = []"
    by (auto simp: log_defs)
  show "tasks' = survivors (log st') tasks"
    unfolding t' survivors_def X(4) Let_def by (cases "map fst (filter (\<lambda>(a, ok). \<not> ok) V)") simp_all
  show "distinct (verifyCalls (log st'))" "set (verifyCalls (log st')) = adapter ` set tasks"
    "publishCalls (log st') = []" "published (log st') = []"
    using X by simp_all
qed

lemma runImmediate_props:
  "runImmediate h ts rs st = (x, st') \<Longrightarrow>
   verifyCalls (log st') = verifyCalls (log st) \<and> failedVerify (log st') = failedVerify (log st)
   \<and> set (publishCalls (log st')) \<subseteq> set (publishCalls (log st)) \<union> set ts
   \<and> (\<forall>rs'. x = Inr rs' \<longrightarrow>
         (\<exists>prs. length prs = length ts \<and> rs' = rs @ map2 (mkResult h) ts prs
            \<and> published (log st') = published (log st) @ zip ts prs
            \<and> publishCalls (log st') = publishCalls (log st) @ ts))
   \<and> (\<forall>e. x = Inl e \<longrightarrow> (\<exists>t \<in> set ts. PublishCall t (Inl e) \<in> set (log st')))"
proof (induction ts arbitrary: rs st)
  case Nil
  then show ?case by auto
next
  case (Cons t ts)
  obtain y w where call: "publish (h (adapter t)) (content t) (world st) = (y, w)"
    by (cases "publish (h (adapter t)) (content t) (world st)")
  show ?case
  proof (cases y)
    case (Inl e)
    then have "x = Inl e" "st' = \<lparr>log = log st @ [PublishCall t (Inl e)], world = w\<rparr>"
      using Cons.prems call by simp_all
    then show ?thesis by (auto simp: log_defs)
  next
    case (Inr r)
    define st1 where "st1 = \<lparr>log = log st @ [PublishCall t (Inr r)], world = w\<rparr>"
    have step: "runImmediate h ts (rs @ [mkResult h t r]) st1 = (x, st')"
      using Cons.prems call Inr by (simp add: st1_def)
    have l1: "verifyCalls (log st1) = verifyCalls (log st)" "failedVerify (log st1) = failedVerify (log st)"
      "publishCalls (log st1) = publishCalls (log st) @ [t]" "published (log st1) = published (log st) @ [(t, r)]"
      by (simp_all add: st1_def log_defs)
    note IH = Cons.IH[OF step]
    have a: "verifyCalls (log st') = verifyCalls (log st)" "failedVerify (log st') = failedVerify (log st)"
      using IH l1 by simp_all
    have b: "set (publishCalls (log st')) \<subseteq> set (publishCalls (log st)) \<union> set (t # ts)"
      using IH l1(3) by auto
    have c: "\<forall>rs'. x = Inr rs' \<longrightarrow>
         (\<exists>prs. length prs = length (t # ts) \<and> rs' = rs @ map2 (mkResult h) (t # ts) prs
            \<and> published (log st') = published (log st) @ zip (t # ts) prs
            \<and> publishCalls (log st') = publishCalls (log st) @ (t # ts))"
    proof (intro allI impI)
      fix rs' assume "x = Inr rs'"
      with IH obtain prs where p: "length prs = length ts" "rs' = (rs @ [mkResult h t r]) @ map2 (mkResult h) ts prs"
        "published (log st') = published (log st1) @ zip ts prs"
        "publishCalls (log st') = publishCalls (log st1) @ ts" by blast
      show "\<exists>prs. length prs = length (t # ts) \<and> rs' = rs @ map2 (mkResult h) (t # ts) prs
            \<and> published (log st') = published (log st) @ zip (t # ts) prs
            \<and> publishCalls (log st') = publishCalls (log st) @ (t # ts)"
        by (rule exI[of _ "r # prs"]) (use p l1 in simp)
    qed
    have d: "\<forall>e. x = Inl e \<longrightarrow> (\<exists>t' \<in> set (t # ts). PublishCall t' (Inl e) \<in> set (log st'))"
      using IH by auto
    from a b c d show ?thesis by blast
  qed
qed

lemma runImmediate_total:
  "(\<forall>t \<in> set ts. publishes h t) \<Longrightarrow> \<exists>rs' st'. runImmediate h ts rs st = (Inr rs', st')"
proof (induction ts arbitrary: rs st)
  case Nil
  show ?case by simp
next
  case (Cons t ts)
  then obtain r w where "publish (h (adapter t)) (content t) (world st) = (Inr r, w)"
    unfolding publishes_def by (metis list.set_intros(1))
  then show ?case using Cons by simp
qed

lemma fireTimers_props:
  "fireTimers h D order slots st = (slots', st') \<Longrightarrow>
   length slots' = length slots
   \<and> verifyCalls (log st') = verifyCalls (log st) \<and> failedVerify (log st') = failedVerify (log st)
   \<and> publishCalls (log st') = publishCalls (log st) @ map ((!) D) (filter (\<lambda>i. i < length D) order)
   \<and> set (published (log st)) \<subseteq> set (published (log st'))"
proof (induction order arbitrary: slots st)
  case Nil
  then show ?case by simp
next
  case (Cons i order)
  show ?case
  proof (cases "i < length D")
    case False
    then have "fireTimers h D order slots st = (slots', st')" using Cons.prems by simp
    from Cons.IH[OF this] False show ?thesis by simp
  next
    case True
    obtain y w where call: "publish (h (adapter (D ! i))) (content (D ! i)) (world st) = (y, w)"
      by (cases "publish (h (adapter (D ! i))) (content (D ! i)) (world st)")
    define st1 where "st1 = \<lparr>log = log st @ [PublishCall (D ! i) y], world = w\<rparr>"
    define slots1 where "slots1 = (case y of Inr r \<Rightarrow> slots[i := Some (mkResult h (D ! i) r)] | Inl e \<Rightarrow> slots)"
    have step: "fireTimers h D order slots1 st1 = (slots', st')"
      using Cons.prems True call by (cases y) (simp_all add: st1_def slots1_def Let_def)
    have l1: "verifyCalls (log st1) = verifyCalls (log st)" "failedVerify (log st1) = failedVerify (log st)"
      "publishCalls (log st1) = publishCalls (log st) @ [D ! i]"
      by (simp_all add: st1_def log_append) (simp_all add: log_defs)
    have l2: "set (published (log st)) \<subseteq> set (published (log st1))"
      by (simp add: st1_def published_append)
    have len: "length slots1 = length slots" by (cases y) (simp_all add: slots1_def)
    note IH = Cons.IH[OF step]
    have 1: "length slots' = length slots" using IH len by simp
    have 2: "verifyCalls (log st') = verifyCalls (log st)" "failedVerify (log st') = failedVerify (log st)"
      using IH l1 by simp_all
    have 3: "publishCalls (log st') = publishCalls (log st) @ map ((!) D) (filter (\<lambda>i. i < length D) (i # order))"
      using IH l1(3) True by simp
    have 4: "set (published (log st)) \<subseteq> set (published (log st'))"
      using IH l2 by blast
    from 1 2 3 4 show ?thesis by blast
  qed
qed

lemma fireTimers_slots:
  "fireTimers h D order slots st = (slots', st') \<Longrightarrow>
   (\<forall>i < length slots. \<forall>r. slots ! i = Some r \<longrightarrow>
        r = mkResult h (D ! i) (unResult r) \<and> (D ! i, unResult r) \<in> set (published (log st))) \<Longrightarrow>
   (\<forall>i < length slots. \<forall>r. slots' ! i = Some r \<longrightarrow>
        r = mkResult h (D ! i) (unResult r) \<and> (D ! i, unResult r) \<in> set (published (log st')))"
proof (induction order arbitrary: slots st)
  case Nil
  then show ?case by simp
next
  case (Cons i order)
  show ?case
  proof (cases "i < length D")
    case False
    then have "fireTimers h D order slots st = (slots', st')" using Cons.prems(1) by simp
    from Cons.IH[OF this Cons.prems(2)] show ?thesis .
  next
    case True
    obtain y w where call: "publish (h (adapter (D ! i))) (content (D ! i)) (world st) = (y, w)"
      by (cases "publish (h (adapter (D ! i))) (content (D ! i)) (world st)")
    define st1 where "st1 = \<lparr>log = log st @ [PublishCall (D ! i) y], world = w\<rparr>"
    define slots1 where "slots1 = (case y of Inr r \<Rightarrow> slots[i := Some (mkResult h (D ! i) r)] | Inl e \<Rightarrow> slots)"
    have step: "fireTimers h D order slots1 st1 = (slots', st')"
      using Cons.prems(1) True call by (cases y) (simp_all add: st1_def slots1_def Let_def)
    have len: "length slots1 = length slots" by (cases y) (simp_all add: slots1_def)
    have mono: "set (published (log st)) \<subseteq> set (published (log st1))"
      by (simp add: st1_def published_append)
    have inv: "\<forall>j < length slots1. \<forall>r. slots1 ! j = Some r \<longrightarrow>
        r = mkResult h (D ! j) (unResult r) \<and> (D ! j, unResult r) \<in> set (published (log st1))"
    proof (intro allI impI)
      fix j r assume j: "j < length slots1" and s: "slots1 ! j = Some r"
      show "r = mkResult h (D ! j) (unResult r) \<and> (D ! j, unResult r) \<in> set (published (log st1))"
      proof (cases y)
        case (Inl e)
        then have "slots ! j = Some r" using s by (simp add: slots1_def)
        then show ?thesis using Cons.prems(2) j len mono by auto
      next
        case (Inr pr)
        show ?thesis
        proof (cases "j = i")
          case True
          then have "r = mkResult h (D ! i) pr" using s j len Inr by (simp add: slots1_def)
          moreover have "published [PublishCall (D ! i) (Inr pr)] = [(D ! i, pr)]" by (simp add: published_def)
          then have "(D ! i, pr) \<in> set (published (log st1))" using Inr by (simp add: st1_def published_append)
          ultimately show ?thesis using True by (simp add: unResult_mkResult)
        next
          case False
          then have "slots ! j = Some r" using s Inr by (simp add: slots1_def)
          then show ?thesis using Cons.prems(2) j len mono by auto
        qed
      qed
    qed
    from Cons.IH[OF step inv] len show ?thesis by simp
  qed
qed

lemma fireTimers_total:
  "fireTimers h D order slots st = (slots', st') \<Longrightarrow> (\<forall>t \<in> set D. publishes h t) \<Longrightarrow>
   length slots = length D \<Longrightarrow>
   (\<forall>i < length D. i \<in> set order \<or> slots ! i \<noteq> None \<longrightarrow> slots' ! i \<noteq> None)"
proof (induction order arbitrary: slots st)
  case Nil
  then show ?case by simp
next
  case (Cons i order)
  show ?case
  proof (cases "i < length D")
    case False
    then have "fireTimers h D order slots st = (slots', st')" using Cons.prems(1) by simp
    from Cons.IH[OF this Cons.prems(2,3)] False show ?thesis by auto
  next
    case True
    then have "publishes h (D ! i)" using Cons.prems(2) by simp
    then obtain r w where call: "publish (h (adapter (D ! i))) (content (D ! i)) (world st) = (Inr r, w)"
      unfolding publishes_def by blast
    define st1 where "st1 = \<lparr>log = log st @ [PublishCall (D ! i) (Inr r)], world = w\<rparr>"
    define slots1 where "slots1 = slots[i := Some (mkResult h (D ! i) r)]"
    have step: "fireTimers h D order slots1 st1 = (slots', st')"
      using Cons.prems(1) True call by (simp add: st1_def slots1_def Let_def)
    have len: "length slots1 = length D" using Cons.prems(3) by (simp add: slots1_def)
    have s1: "\<forall>j < length D. j = i \<or> slots ! j \<noteq> None \<longrightarrow> slots1 ! j \<noteq> None"
    proof (intro allI impI)
      fix j assume j: "j < length D" and o: "j = i \<or> slots ! j \<noteq> None"
      show "slots1 ! j \<noteq> None"
      proof (cases "j = i")
        case True
        then show ?thesis using j Cons.prems(3) by (simp add: slots1_def)
      next
        case False
        then show ?thesis using o by (simp add: slots1_def)
      qed
    qed
    from Cons.IH[OF step Cons.prems(2) len] s1 show ?thesis by auto
  qed
qed

lemma those_map_Some: "those (map Some ys) = Some ys"
  by (induction ys) simp_all

lemma those_Some: "those xs = Some ys \<Longrightarrow> xs = map Some ys"
proof (induction xs arbitrary: ys)
  case Nil
  then show ?case by simp
next
  case (Cons x xs)
  from Cons.prems obtain y where x: "x = Some y" by (cases x) simp_all
  from Cons.prems x obtain zs where zs: "those xs = Some zs" "ys = y # zs"
    by (cases "those xs") simp_all
  from Cons.IH[OF zs(1)] x zs(2) show ?case by simp
qed

lemma those_None: "those xs = None \<longleftrightarrow> None \<in> set xs"
proof (induction xs)
  case Nil
  show ?case by simp
next
  case (Cons x xs)
  then show ?case by (cases x) (auto split: option.splits)
qed

lemma set_timerOrder: "set (timerOrder D) = {0..<length D}"
proof -
  have "set (timerOrder D) = fst ` set (enumerate 0 D)" by (simp add: timerOrder_def)
  also have "\<dots> = set (map fst (enumerate 0 D))" by (simp only: set_map)
  also have "map fst (enumerate 0 D) = [0..<length D]" by (simp only: map_fst_enumerate) simp
  finally show ?thesis by simp
qed

lemma filter_timerOrder: "filter (\<lambda>i. i < length D) (timerOrder D) = timerOrder D"
  using set_timerOrder[of D] by (simp add: filter_id_conv)

lemma runDelayed_props:
  assumes "runDelayed h D order st = (out, st')"
  shows "verifyCalls (log st') = verifyCalls (log st)" "failedVerify (log st') = failedVerify (log st)"
    "publishCalls (log st') = publishCalls (log st) @ map ((!) D) (filter (\<lambda>i. i < length D) order)"
    "set (published (log st)) \<subseteq> set (published (log st'))"
    "out \<noteq> Rejected e"
    "out = Resolved drs \<Longrightarrow> length drs = length D \<and> drs = map2 (mkResult h) D (map unResult drs)
        \<and> set (zip D (map unResult drs)) \<subseteq> set (published (log st'))"
    "{0..<length D} \<subseteq> set order \<Longrightarrow> (\<forall>t \<in> set D. publishes h t) \<Longrightarrow> \<exists>rs. out = Resolved rs"
proof -
  obtain slots' where ft: "fireTimers h D order (replicate (length D) None) st = (slots', st')"
    and out: "out = (case those slots' of None \<Rightarrow> Pending | Some rs \<Rightarrow> Resolved rs)"
    using assms by (auto simp: runDelayed_def split: prod.splits option.splits)
  note P = fireTimers_props[OF ft]
  show "verifyCalls (log st') = verifyCalls (log st)" "failedVerify (log st') = failedVerify (log st)"
    "publishCalls (log st') = publishCalls (log st) @ map ((!) D) (filter (\<lambda>i. i < length D) order)"
    "set (published (log st)) \<subseteq> set (published (log st'))"
    using P by simp_all
  show "out \<noteq> Rejected e" using out by (cases "those slots'") simp_all
  have len: "length slots' = length D" using P by simp
  have inv: "\<forall>i < length D. \<forall>r. slots' ! i = Some r \<longrightarrow>
        r = mkResult h (D ! i) (unResult r) \<and> (D ! i, unResult r) \<in> set (published (log st'))"
    using fireTimers_slots[OF ft] by simp
  {
    assume "out = Resolved drs"
    then have "those slots' = Some drs" using out by (cases "those slots'") simp_all
    then have sl: "slots' = map Some drs" by (rule those_Some)
    then have l: "length drs = length D" using len by simp
    have nth: "\<forall>i < length D. drs ! i = mkResult h (D ! i) (unResult (drs ! i))
        \<and> (D ! i, unResult (drs ! i)) \<in> set (published (log st'))"
      using inv sl l by simp
    have eq: "drs = map2 (mkResult h) D (map unResult drs)"
      by (rule nth_equalityI) (use l nth in simp_all)
    have sub: "set (zip D (map unResult drs)) \<subseteq> set (published (log st'))"
      using nth l by (auto simp: set_zip)
    from l eq sub show "length drs = length D \<and> drs = map2 (mkResult h) D (map unResult drs)
        \<and> set (zip D (map unResult drs)) \<subseteq> set (published (log st'))" by blast
  }
  {
    assume o: "{0..<length D} \<subseteq> set order" and p: "\<forall>t \<in> set D. publishes h t"
    have "\<forall>i < length D. slots' ! i \<noteq> None"
      using fireTimers_total[OF ft p] o by auto
    then have "None \<notin> set slots'" using len by (auto simp: in_set_conv_nth)
    then have "those slots' \<noteq> None" by (simp add: those_None)
    then show "\<exists>rs. out = Resolved rs" using out by (cases "those slots'") simp_all
  }
qed

lemma runLanes_props:
  assumes "runLanes h tasks st = (out, st')"
  shows "verifyCalls (log st') = verifyCalls (log st) \<and> failedVerify (log st') = failedVerify (log st)
    \<and> set (publishCalls (log st')) \<subseteq> set (publishCalls (log st)) \<union> set (lanes tasks)
    \<and> (\<forall>rs. out = Resolved rs \<longrightarrow>
       (\<exists>prs. length prs = length (lanes tasks) \<and> rs = map2 (mkResult h) (lanes tasks) prs
         \<and> set (zip (lanes tasks) prs) \<subseteq> set (published (log st'))
         \<and> publishCalls (log st') = publishCalls (log st) @ filter (\<lambda>t. delayMs t = 0) tasks
              @ map ((!) (filter (\<lambda>t. delayMs t > 0) tasks)) (timerOrder (filter (\<lambda>t. delayMs t > 0) tasks))))
    \<and> (\<forall>e. out = Rejected e \<longrightarrow> (\<exists>t \<in> set (lanes tasks). PublishCall t (Inl e) \<in> set (log st')))
    \<and> ((\<forall>t \<in> set (lanes tasks). publishes h t) \<longrightarrow> (\<exists>rs. out = Resolved rs))"
proof -
  define imm where "imm = filter (\<lambda>t. delayMs t = 0) tasks"
  define del where "del = filter (\<lambda>t. delayMs t > 0) tasks"
  have lanes: "lanes tasks = imm @ del" by (simp add: lanes_def imm_def del_def)
  obtain x st1 where ri: "runImmediate h imm [] st = (x, st1)" by (cases "runImmediate h imm [] st")
  note I = runImmediate_props[OF ri]
  show ?thesis
  proof (cases x)
    case (Inl err)
    then have o: "out = Rejected err" "st' = st1"
      using assms ri by (simp_all add: runLanes_def imm_def[symmetric] del_def[symmetric])
    have "\<not> (\<forall>t \<in> set imm. publishes h t)"
      using runImmediate_total[of imm h "[]" st] ri Inl by auto
    then have np: "\<not> (\<forall>t \<in> set (lanes tasks). publishes h t)" unfolding lanes by auto
    have v: "verifyCalls (log st') = verifyCalls (log st)" "failedVerify (log st') = failedVerify (log st)"
      using I o(2) by simp_all
    have pc: "set (publishCalls (log st')) \<subseteq> set (publishCalls (log st)) \<union> set (lanes tasks)"
      using I o(2) unfolding lanes by auto
    have rj: "\<forall>e. out = Rejected e \<longrightarrow> (\<exists>t \<in> set (lanes tasks). PublishCall t (Inl e) \<in> set (log st'))"
      using I Inl o unfolding lanes by auto
    have nres: "\<forall>rs. out = Resolved rs \<longrightarrow>
       (\<exists>prs. length prs = length (lanes tasks) \<and> rs = map2 (mkResult h) (lanes tasks) prs
         \<and> set (zip (lanes tasks) prs) \<subseteq> set (published (log st'))
         \<and> publishCalls (log st') = publishCalls (log st) @ filter (\<lambda>t. delayMs t = 0) tasks
              @ map ((!) (filter (\<lambda>t. delayMs t > 0) tasks)) (timerOrder (filter (\<lambda>t. delayMs t > 0) tasks)))"
      using o(1) by simp
    have tot: "(\<forall>t \<in> set (lanes tasks). publishes h t) \<longrightarrow> (\<exists>rs. out = Resolved rs)"
      using np by blast
    show ?thesis
      by (intro conjI) (rule v(1), rule v(2), rule pc, rule nres, rule rj, rule tot)
  next
    case (Inr irs)
    obtain dout st2 where rd: "runDelayed h del (timerOrder del) st1 = (dout, st2)"
      by (cases "runDelayed h del (timerOrder del) st1")
    note D = runDelayed_props[OF rd]
    have rl: "runLanes h tasks st =
        (case dout of Resolved drs \<Rightarrow> (Resolved (irs @ drs), st2) | Rejected err \<Rightarrow> (Rejected err, st2)
         | Pending \<Rightarrow> (Pending, st2))"
      using ri rd Inr by (simp add: runLanes_def imm_def[symmetric] del_def[symmetric])
    have pair: "(out, st') =
        (case dout of Resolved drs \<Rightarrow> (Resolved (irs @ drs), st2) | Rejected err \<Rightarrow> (Rejected err, st2)
         | Pending \<Rightarrow> (Pending, st2))"
      using assms[symmetric] rl by (rule trans)
    have o1: "st' = st2" using pair by (cases dout) simp_all
    have o2: "out = (case dout of Resolved drs \<Rightarrow> Resolved (irs @ drs) | other \<Rightarrow> other)"
      using pair by (cases dout) simp_all
    note o = o1 o2
    from I Inr obtain iprs where ip: "length iprs = length imm" "irs = map2 (mkResult h) imm iprs"
      "published (log st1) = published (log st) @ zip imm iprs"
      "publishCalls (log st1) = publishCalls (log st) @ imm" by auto
    have v: "verifyCalls (log st') = verifyCalls (log st)" "failedVerify (log st') = failedVerify (log st)"
      using I D(1,2) o(1) by simp_all
    have pc: "publishCalls (log st') = publishCalls (log st) @ imm @ map ((!) del) (timerOrder del)"
      using D(3) ip(4) o(1) by (simp add: filter_timerOrder)
    have "set (map ((!) del) (timerOrder del)) \<subseteq> set del"
      using set_timerOrder[of del] by auto
    then have pcs: "set (publishCalls (log st')) \<subseteq> set (publishCalls (log st)) \<union> set (lanes tasks)"
      unfolding pc lanes by auto
    have nr: "\<forall>e. out \<noteq> Rejected e" using o(2) D(5) by (cases dout) simp_all
    have res: "\<forall>rs. out = Resolved rs \<longrightarrow>
       (\<exists>prs. length prs = length (lanes tasks) \<and> rs = map2 (mkResult h) (lanes tasks) prs
         \<and> set (zip (lanes tasks) prs) \<subseteq> set (published (log st'))
         \<and> publishCalls (log st') = publishCalls (log st) @ imm @ map ((!) del) (timerOrder del))"
    proof (intro allI impI)
      fix rs assume r: "out = Resolved rs"
      then obtain drs where d: "dout = Resolved drs" "rs = irs @ drs" using o(2) by (cases dout) simp_all
      from D(6)[OF d(1)] have dd: "length drs = length del" "drs = map2 (mkResult h) del (map unResult drs)"
        "set (zip del (map unResult drs)) \<subseteq> set (published (log st'))" using o(1) by simp_all
      let ?prs = "iprs @ map unResult drs"
      have 1: "length ?prs = length (lanes tasks)" using ip(1) dd(1) lanes by simp
      have "map2 (mkResult h) (imm @ del) ?prs =
              map2 (mkResult h) imm iprs @ map2 (mkResult h) del (map unResult drs)"
        using ip(1) by simp
      also have "\<dots> = irs @ drs" by (simp only: ip(2)[symmetric] dd(2)[symmetric])
      finally have 2: "rs = map2 (mkResult h) (lanes tasks) ?prs" unfolding lanes d(2) by simp
      have "set (zip imm iprs) \<subseteq> set (published (log st'))" using ip(3) D(4) o(1) by auto
      then have 3: "set (zip (lanes tasks) ?prs) \<subseteq> set (published (log st'))"
        unfolding lanes using ip(1) dd(3) by simp
      from 1 2 3 pc show "\<exists>prs. length prs = length (lanes tasks) \<and> rs = map2 (mkResult h) (lanes tasks) prs
         \<and> set (zip (lanes tasks) prs) \<subseteq> set (published (log st'))
         \<and> publishCalls (log st') = publishCalls (log st) @ imm @ map ((!) del) (timerOrder del)" by blast
    qed
    have tot: "(\<forall>t \<in> set (lanes tasks). publishes h t) \<longrightarrow> (\<exists>rs. out = Resolved rs)"
    proof
      assume "\<forall>t \<in> set (lanes tasks). publishes h t"
      then have "\<forall>t \<in> set del. publishes h t" unfolding lanes by simp
      from D(7)[OF _ this] set_timerOrder[of del] obtain drs where "dout = Resolved drs" by auto
      then show "\<exists>rs. out = Resolved rs" using o(2) by simp
    qed
    have rj: "\<forall>e. out = Rejected e \<longrightarrow> (\<exists>t \<in> set (lanes tasks). PublishCall t (Inl e) \<in> set (log st'))"
      using nr by simp
    show ?thesis
      by (intro conjI)
         (rule v(1), rule v(2), rule pcs, rule res[unfolded imm_def del_def], rule rj, rule tot)
  qed
qed

lemma set_lanes: "set (lanes ts) = {t \<in> set ts. 0 \<le> delayMs t}"
  by (auto simp: lanes_def)


lemma set_survivors: "set (survivors evs ts) = {t \<in> set ts. adapter t \<notin> set (failedVerify evs)}"
  by (auto simp: survivors_def)

lemma executeTasks_props:
  assumes "executeTasks h v tasks w = (out, st')"
  shows "\<exists>st1. runLanes h (survivors (log st') tasks) st1 = (out, st')
           \<and> publishCalls (log st1) = [] \<and> published (log st1) = []
           \<and> (if v then distinct (verifyCalls (log st1)) \<and> set (verifyCalls (log st1)) = adapter ` set tasks
               else verifyCalls (log st1) = [])"
proof (cases v)
  case True
  obtain tasks' st1 where g: "verifyGate h tasks \<lparr>log = [], world = w\<rparr> = (tasks', st1)"
    by (cases "verifyGate h tasks \<lparr>log = [], world = w\<rparr>")
  then have rl: "runLanes h tasks' st1 = (out, st')" using assms True by (simp add: executeTasks_def)
  note G = verifyGate_props[OF g]
  have "failedVerify (log st') = failedVerify (log st1)" using runLanes_props[OF rl] by blast
  then have "tasks' = survivors (log st') tasks" using G(1) by (simp add: survivors_def)
  then have "runLanes h (survivors (log st') tasks) st1 = (out, st')" using rl by simp
  then show ?thesis using G(2-5) True by auto
next
  case False
  define st1 :: "'a state" where "st1 = \<lparr>log = [], world = w\<rparr>"
  have rl: "runLanes h tasks st1 = (out, st')" using assms False by (simp add: executeTasks_def st1_def)
  have l: "verifyCalls (log st1) = []" "failedVerify (log st1) = []" "publishCalls (log st1) = []"
    "published (log st1) = []" by (simp_all add: st1_def log_defs)
  have "failedVerify (log st') = failedVerify (log st1)" using runLanes_props[OF rl] by blast
  then have "survivors (log st') tasks = tasks" using l(2) by (simp add: survivors_def)
  then have "runLanes h (survivors (log st') tasks) st1 = (out, st')" using rl by simp
  then show ?thesis using l False by auto
qed

text \<open>
  The verification gate over adapters whose \<^verbatim>\<open>id\<close> is a string and whose
  \<^verbatim>\<open>verify()\<close> rejects with error objects.
\<close>

lemma executeTasks_gate_typed:
  "executeTasks h True tasks w = (out, st') \<longrightarrow>
     (\<forall>a. count_list (verifyCalls (log st')) a = (if a \<in> adapter ` set tasks then 1 else 0))
   \<and> (\<forall>t \<in> set (publishCalls (log st')). t \<in> set tasks \<and> adapter t \<notin> set (failedVerify (log st')))
   \<and> (\<forall>rs. out = Resolved rs \<longrightarrow>
         (\<exists>prs. length prs = length (lanes (survivors (log st') tasks))
            \<and> rs = map2 (mkResult h) (lanes (survivors (log st') tasks)) prs))
   \<and> (\<forall>e. out = Rejected e \<longrightarrow>
         (\<exists>t \<in> set tasks. adapter t \<notin> set (failedVerify (log st')) \<and> PublishCall t (Inl e) \<in> set (log st')))
   \<and> ((\<forall>t \<in> set tasks. adapter t \<notin> set (failedVerify (log st')) \<longrightarrow> publishes h t) \<longrightarrow>
         (\<exists>rs. out = Resolved rs \<and> length rs = length (lanes (survivors (log st') tasks))))"
proof
  assume ex: "executeTasks h True tasks w = (out, st')"
  let ?surv = "survivors (log st') tasks"
  from executeTasks_props[OF ex] obtain st1 where rl: "runLanes h ?surv st1 = (out, st')"
    and e: "publishCalls (log st1) = []"
    and d: "distinct (verifyCalls (log st1))" "set (verifyCalls (log st1)) = adapter ` set tasks"
    by auto
  note L = runLanes_props[OF rl]
  have vc: "verifyCalls (log st') = verifyCalls (log st1)" using L by blast
  have sub: "set (lanes ?surv) \<subseteq> {t \<in> set tasks. adapter t \<notin> set (failedVerify (log st'))}"
    by (auto simp: set_lanes set_survivors)
  have 1: "\<forall>a. count_list (verifyCalls (log st')) a = (if a \<in> adapter ` set tasks then 1 else 0)"
    using distinct_count_list[OF d(1)] d(2) vc by simp
  have "set (publishCalls (log st')) \<subseteq> set (lanes ?surv)" using L e by simp
  then have 2: "\<forall>t \<in> set (publishCalls (log st')). t \<in> set tasks \<and> adapter t \<notin> set (failedVerify (log st'))"
    using sub by blast
  have 3: "\<forall>rs. out = Resolved rs \<longrightarrow>
         (\<exists>prs. length prs = length (lanes ?surv) \<and> rs = map2 (mkResult h) (lanes ?surv) prs)"
    using L by blast
  have 4: "\<forall>e. out = Rejected e \<longrightarrow>
         (\<exists>t \<in> set tasks. adapter t \<notin> set (failedVerify (log st')) \<and> PublishCall t (Inl e) \<in> set (log st'))"
  proof (intro allI impI)
    fix e assume "out = Rejected e"
    then obtain t where "t \<in> set (lanes ?surv)" "PublishCall t (Inl e) \<in> set (log st')" using L by blast
    then show "\<exists>t \<in> set tasks. adapter t \<notin> set (failedVerify (log st')) \<and> PublishCall t (Inl e) \<in> set (log st')"
      using sub by blast
  qed
  have 5: "(\<forall>t \<in> set tasks. adapter t \<notin> set (failedVerify (log st')) \<longrightarrow> publishes h t) \<longrightarrow>
         (\<exists>rs. out = Resolved rs \<and> length rs = length (lanes ?surv))"
  proof
    assume "\<forall>t \<in> set tasks. adapter t \<notin> set (failedVerify (log st')) \<longrightarrow> publishes h t"
    then have "\<forall>t \<in> set (lanes ?surv). publishes h t" using sub by blast
    then obtain rs where r: "out = Resolved rs" using L by blast
    then obtain prs where "length prs = length (lanes ?surv)" "rs = map2 (mkResult h) (lanes ?surv) prs"
      using 3 by blast
    then have "length rs = length (lanes ?surv)" by simp
    then show "\<exists>rs. out = Resolved rs \<and> length rs = length (lanes ?surv)" using r by blast
  qed
  show "(\<forall>a. count_list (verifyCalls (log st')) a = (if a \<in> adapter ` set tasks then 1 else 0))
   \<and> (\<forall>t \<in> set (publishCalls (log st')). t \<in> set tasks \<and> adapter t \<notin> set (failedVerify (log st')))
   \<and> (\<forall>rs. out = Resolved rs \<longrightarrow>
         (\<exists>prs. length prs = length (lanes ?surv) \<and> rs = map2 (mkResult h) (lanes ?surv) prs))
   \<and> (\<forall>e. out = Rejected e \<longrightarrow>
         (\<exists>t \<in> set tasks. adapter t \<notin> set (failedVerify (log st')) \<and> PublishCall t (Inl e) \<in> set (log st')))
   \<and> ((\<forall>t \<in> set tasks. adapter t \<notin> set (failedVerify (log st')) \<longrightarrow> publishes h t) \<longrightarrow>
         (\<exists>rs. out = Resolved rs \<and> length rs = length (lanes ?surv)))"
    by (intro conjI) (rule 1, rule 2, rule 3, rule 4, rule 5)
qed

lemma exampleBatch_run:
  "fst (executeTasks DummyAdapter True exampleBatch dummyWorld) =
     Resolved [exampleResult ''r0'', exampleResult ''r2'', exampleResult ''r3'']
   \<and> log (snd (executeTasks DummyAdapter True exampleBatch dummyWorld)) = exampleLog"
  by code_simp

lemma exampleLog_reads:
  "verifyCalls exampleLog = [0, 1]" "failedVerify exampleLog = [1]"
  "publishCalls exampleLog = [exampleTask 0 0 ''r0'', exampleTask 0 20 ''r3'', exampleTask 0 100 ''r2'']"
  by (simp_all add: exampleLog_def log_defs)

lemma DummyAdapter_publishes: "publishes DummyAdapter (exampleTask a d n)"
  by (simp add: publishes_def DummyAdapter_def DummyAdapter_publish_def exampleTask_def textContent_def Let_def)

text \<open>
  On adapters that keep the protocol, \<open>executeTasks_any\<close> is \<open>executeTasks\<close> on the
  same adapters seen as \<open>social_adapter\<close>s.
\<close>

lemma verifyWarning_text: "verifyWarning i e = verifyWarningText i (message e)"
  by (simp add: verifyWarning_def verifyWarningText_def)

lemma keeps_protocol_id: "keeps_protocol a \<Longrightarrow> get_id a = Inr (adapter_id (typed a))"
  by (auto simp: keeps_protocol_def typed_def)

lemma keeps_protocol_verify:
  assumes "keeps_protocol a" "call_verify a w = (Inl r, w')"
  shows "\<exists>e. r = ErrorObject e \<and> verify (typed a) w = (Inl e, w')"
proof (cases r)
  case (ErrorObject e)
  then show ?thesis using assms(2) by (simp add: typed_def)
next
  case NullValue
  have "fst (call_verify a w) \<noteq> Inl NullValue" using assms(1) by (simp add: keeps_protocol_def)
  then show ?thesis using assms(2) NullValue by simp
next
  case UndefinedValue
  have "fst (call_verify a w) \<noteq> Inl UndefinedValue" using assms(1) by (simp add: keeps_protocol_def)
  then show ?thesis using assms(2) UndefinedValue by simp
qed

lemma typed_verify_Inr: "call_verify a w = (Inr v, w') \<Longrightarrow> verify (typed a) w = (Inr v, w')"
  by (simp add: typed_def)

lemma typed_publish: "publish (typed a) = call_publish a"
  by (simp add: typed_def)

lemma mkResult_any_typed:
  "keeps_protocol (H (adapter t)) \<Longrightarrow> mkResult_any H t r = Inr (mkResult (\<lambda>a. typed (H a)) t r)"
  using keeps_protocol_id[of "H (adapter t)"] by (simp add: mkResult_any_def mkResult_def)

lemma verifyLoop_any_typed:
  "\<forall>t \<in> set ts. keeps_protocol (H (adapter t)) \<Longrightarrow>
     verifyLoop_any H ts V st = (Inr (fst (verifyLoop (\<lambda>a. typed (H a)) ts V st)), snd (verifyLoop (\<lambda>a. typed (H a)) ts V st))"
proof (induction ts arbitrary: V st)
  case Nil
  show ?case by simp
next
  case (Cons t ts)
  have k: "keeps_protocol (H (adapter t))" using Cons.prems by simp
  have IH: "\<And>V st. verifyLoop_any H ts V st =
      (Inr (fst (verifyLoop (\<lambda>a. typed (H a)) ts V st)), snd (verifyLoop (\<lambda>a. typed (H a)) ts V st))"
    using Cons.IH Cons.prems by simp
  show ?case
  proof (cases "adapter t \<in> set (map fst V)")
    case True
    then show ?thesis using IH by simp
  next
    case False
    obtain x w where cv: "call_verify (H (adapter t)) (world st) = (x, w)"
      by (cases "call_verify (H (adapter t)) (world st)")
    show ?thesis
    proof (cases x)
      case (Inr v)
      have tv: "verify (typed (H (adapter t))) (world st) = (Inr v, w)"
        using typed_verify_Inr cv Inr by simp
      show ?thesis using False cv Inr tv IH by simp
    next
      case (Inl r)
      from keeps_protocol_verify[OF k cv[unfolded Inl]] obtain e where
        e: "r = ErrorObject e" "verify (typed (H (adapter t))) (world st) = (Inl e, w)" by blast
      show ?thesis
        using False cv Inl e keeps_protocol_id[OF k] IH by (simp add: verifyWarning_text)
    qed
  qed
qed

lemma verifyGate_any_typed:
  assumes "\<forall>t \<in> set tasks. keeps_protocol (H (adapter t))"
  shows "verifyGate_any H tasks st =
           (Inr (fst (verifyGate (\<lambda>a. typed (H a)) tasks st)), snd (verifyGate (\<lambda>a. typed (H a)) tasks st))"
  unfolding verifyGate_any_def verifyGate_def verifyLoop_any_typed[OF assms]
  by (simp add: Let_def split_beta)

lemma verifyGate_subset: "set (fst (verifyGate h tasks st)) \<subseteq> set tasks"
  by (auto simp: verifyGate_def Let_def split_beta)

lemma runImmediate_any_typed:
  "\<forall>t \<in> set ts. keeps_protocol (H (adapter t)) \<Longrightarrow>
     runImmediate_any H ts rs st = runImmediate (\<lambda>a. typed (H a)) ts rs st"
proof (induction ts arbitrary: rs st)
  case Nil
  show ?case by simp
next
  case (Cons t ts)
  have k: "keeps_protocol (H (adapter t))" using Cons.prems by simp
  have IH: "\<And>rs st. runImmediate_any H ts rs st = runImmediate (\<lambda>a. typed (H a)) ts rs st"
    using Cons.IH Cons.prems by simp
  obtain x w where cp: "call_publish (H (adapter t)) (content t) (world st) = (x, w)"
    by (cases "call_publish (H (adapter t)) (content t) (world st)")
  show ?case
    using cp IH mkResult_any_typed[of H t, OF k] by (cases x) (simp_all add: typed_publish)
qed

lemma fireTimers_any_typed:
  "\<forall>t \<in> set D. keeps_protocol (H (adapter t)) \<Longrightarrow>
     fireTimers_any H D order slots st = fireTimers (\<lambda>a. typed (H a)) D order slots st"
proof (induction order arbitrary: slots st)
  case Nil
  show ?case by simp
next
  case (Cons i order)
  have IH: "\<And>slots st. fireTimers_any H D order slots st = fireTimers (\<lambda>a. typed (H a)) D order slots st"
    using Cons.IH Cons.prems by simp
  show ?case
  proof (cases "i < length D")
    case False
    then show ?thesis using IH by simp
  next
    case True
    then have k: "keeps_protocol (H (adapter (D ! i)))" using Cons.prems by simp
    obtain x w where cp: "call_publish (H (adapter (D ! i))) (content (D ! i)) (world st) = (x, w)"
      by (cases "call_publish (H (adapter (D ! i))) (content (D ! i)) (world st)")
    show ?thesis
      using True cp IH mkResult_any_typed[of H "D ! i", OF k] by (cases x) (simp_all add: typed_publish Let_def)
  qed
qed

lemma runDelayed_any_typed:
  assumes "\<forall>t \<in> set D. keeps_protocol (H (adapter t))"
  shows "runDelayed_any H D order st = runDelayed (\<lambda>a. typed (H a)) D order st"
  unfolding runDelayed_any_def runDelayed_def fireTimers_any_typed[OF assms] by (rule refl)

lemma runLanes_any_typed:
  assumes "\<forall>t \<in> set tasks. keeps_protocol (H (adapter t))"
  shows "runLanes_any H tasks st = runLanes (\<lambda>a. typed (H a)) tasks st"
proof -
  have a: "\<forall>t \<in> set (filter (\<lambda>t. delayMs t = 0) tasks). keeps_protocol (H (adapter t))"
    using assms by simp
  have b: "\<forall>t \<in> set (filter (\<lambda>t. delayMs t > 0) tasks). keeps_protocol (H (adapter t))"
    using assms by simp
  show ?thesis
    unfolding runLanes_any_def runLanes_def Let_def runImmediate_any_typed[OF a]
      runDelayed_any_typed[OF b] by (rule refl)
qed

lemma executeTasks_any_typed:
  assumes "\<forall>t \<in> set tasks. keeps_protocol (H (adapter t))"
  shows "executeTasks_any H v tasks w = executeTasks (\<lambda>a. typed (H a)) v tasks w"
proof (cases v)
  case False
  then show ?thesis by (simp add: executeTasks_any_def executeTasks_def runLanes_any_typed[OF assms])
next
  case True
  let ?st = "\<lparr>log = [], world = w\<rparr>"
  have s: "\<forall>t \<in> set (fst (verifyGate (\<lambda>a. typed (H a)) tasks ?st)). keeps_protocol (H (adapter t))"
    using assms verifyGate_subset[of "\<lambda>a. typed (H a)" tasks ?st] by blast
  show ?thesis
    using True runLanes_any_typed[OF s]
    by (simp add: executeTasks_any_def executeTasks_def verifyGate_any_typed[OF assms] split_beta)
qed

lemma map2_mkResult_any:
  "\<forall>t \<in> set ts. keeps_protocol (H (adapter t)) \<Longrightarrow>
     map2 (mkResult_any H) ts prs = map Inr (map2 (mkResult (\<lambda>a. typed (H a))) ts prs)"
proof (induction ts arbitrary: prs)
  case Nil
  show ?case by simp
next
  case (Cons t ts)
  then show ?case using mkResult_any_typed[of H t] by (cases prs) simp_all
qed

lemma publishes_any_typed: "publishes (\<lambda>a. typed (H a)) t = publishes_any H t"
  by (simp add: publishes_def publishes_any_def typed_publish)

lemma typed_DummyAdapter_instance: "(\<lambda>a. typed (DummyAdapter_instance a)) = DummyAdapter"
proof
  fix a
  have v: "verify (typed (DummyAdapter_instance a)) = verify (DummyAdapter a)"
    by (rule ext) (simp add: typed_def DummyAdapter_instance_def DummyAdapter_def DummyAdapter_verify_def)
  have "typed (DummyAdapter_instance a) =
          \<lparr>adapter_id = ''dummy'', verify = verify (typed (DummyAdapter_instance a)),
           publish = publish (DummyAdapter a)\<rparr>"
    by (simp add: typed_def DummyAdapter_instance_def DummyAdapter_def)
  also have "\<dots> = DummyAdapter a" unfolding v by (simp add: DummyAdapter_def)
  finally show "typed (DummyAdapter_instance a) = DummyAdapter a" .
qed

lemma DummyAdapter_instance_keeps: "keeps_protocol (DummyAdapter_instance a)"
  by (simp add: keeps_protocol_def DummyAdapter_instance_def DummyAdapter_verify_def)

lemma DummyAdapter_instance_publishes: "publishes_any DummyAdapter_instance (exampleTask a d n)"
  using DummyAdapter_publishes[of a d n]
  unfolding typed_DummyAdapter_instance[symmetric] publishes_any_typed .

lemma exampleBatch_run_any:
  "executeTasks_any DummyAdapter_instance True exampleBatch dummyWorld =
     executeTasks DummyAdapter True exampleBatch dummyWorld"
  using executeTasks_any_typed[of exampleBatch DummyAdapter_instance True dummyWorld]
    DummyAdapter_instance_keeps
  unfolding typed_DummyAdapter_instance by simp

text \<open>
  C1. With the verification gate on, and every adapter of the batch keeping the protocol
  (its \<^verbatim>\<open>id\<close> getter returns, and its \<^verbatim>\<open>verify()\<close> rejects with nothing but values
  whose \<^verbatim>\<open>message\<close> can be read): every adapter a task of the batch is bound to has
  exactly one \<^verbatim>\<open>verify()\<close> call in the log of the call, and no other adapter has one.
  No \<^verbatim>\<open>publish\<close> call is made for a task of an adapter whose \<^verbatim>\<open>verify()\<close> failed;
  the results are those of the tasks of the other adapters (the surviving tasks, lane by
  lane), a rejection of \<^verbatim>\<open>executeTasks\<close> is the rejection of a \<^verbatim>\<open>publish\<close> of a
  surviving task and never comes from a failed \<^verbatim>\<open>verify()\<close>, and when the
  \<^verbatim>\<open>publish\<close> of every surviving task resolves, \<^verbatim>\<open>executeTasks\<close> resolves with one
  result for each surviving task of the two lanes.
\<close>

theorem executeTasks_any_verify_gate:
  "(\<forall>t \<in> set tasks. keeps_protocol (H (adapter t))) \<and> executeTasks_any H True tasks w = (out, st') \<longrightarrow>
     (\<forall>a. count_list (verifyCalls (log st')) a = (if a \<in> adapter ` set tasks then 1 else 0))
   \<and> (\<forall>t \<in> set (publishCalls (log st')). t \<in> set tasks \<and> adapter t \<notin> set (failedVerify (log st')))
   \<and> (\<forall>rs. out = Resolved rs \<longrightarrow>
         (\<exists>prs. length prs = length (lanes (survivors (log st') tasks))
            \<and> map Inr rs = map2 (mkResult_any H) (lanes (survivors (log st') tasks)) prs))
   \<and> (\<forall>e. out = Rejected e \<longrightarrow>
         (\<exists>t \<in> set tasks. adapter t \<notin> set (failedVerify (log st')) \<and> PublishCall t (Inl e) \<in> set (log st')))
   \<and> ((\<forall>t \<in> set tasks. adapter t \<notin> set (failedVerify (log st')) \<longrightarrow> publishes_any H t) \<longrightarrow>
         (\<exists>rs. out = Resolved rs \<and> length rs = length (lanes (survivors (log st') tasks))))"
proof
  assume a: "(\<forall>t \<in> set tasks. keeps_protocol (H (adapter t))) \<and> executeTasks_any H True tasks w = (out, st')"
  then have k: "\<forall>t \<in> set tasks. keeps_protocol (H (adapter t))" by (rule conjunct1)
  have ex: "executeTasks (\<lambda>a. typed (H a)) True tasks w = (out, st')"
    using a executeTasks_any_typed[OF k] by simp
  let ?surv = "survivors (log st') tasks"
  note T = executeTasks_gate_typed[of "\<lambda>a. typed (H a)" tasks w out st', THEN mp, OF ex]
  have ks: "\<forall>t \<in> set (lanes ?surv). keeps_protocol (H (adapter t))"
    using k by (simp add: set_lanes set_survivors)
  have 1: "\<forall>a. count_list (verifyCalls (log st')) a = (if a \<in> adapter ` set tasks then 1 else 0)"
    by (rule T[THEN conjunct1])
  have 2: "\<forall>t \<in> set (publishCalls (log st')). t \<in> set tasks \<and> adapter t \<notin> set (failedVerify (log st'))"
    by (rule T[THEN conjunct2, THEN conjunct1])
  have 3: "\<forall>rs. out = Resolved rs \<longrightarrow>
         (\<exists>prs. length prs = length (lanes ?surv) \<and> map Inr rs = map2 (mkResult_any H) (lanes ?surv) prs)"
    using T[THEN conjunct2, THEN conjunct2, THEN conjunct1] unfolding map2_mkResult_any[OF ks] by blast
  have 4: "\<forall>e. out = Rejected e \<longrightarrow>
         (\<exists>t \<in> set tasks. adapter t \<notin> set (failedVerify (log st')) \<and> PublishCall t (Inl e) \<in> set (log st'))"
    by (rule T[THEN conjunct2, THEN conjunct2, THEN conjunct2, THEN conjunct1])
  have 5: "(\<forall>t \<in> set tasks. adapter t \<notin> set (failedVerify (log st')) \<longrightarrow> publishes_any H t) \<longrightarrow>
         (\<exists>rs. out = Resolved rs \<and> length rs = length (lanes ?surv))"
    using T[THEN conjunct2, THEN conjunct2, THEN conjunct2, THEN conjunct2]
    unfolding publishes_any_typed .
  show "(\<forall>a. count_list (verifyCalls (log st')) a = (if a \<in> adapter ` set tasks then 1 else 0))
   \<and> (\<forall>t \<in> set (publishCalls (log st')). t \<in> set tasks \<and> adapter t \<notin> set (failedVerify (log st')))
   \<and> (\<forall>rs. out = Resolved rs \<longrightarrow>
         (\<exists>prs. length prs = length (lanes ?surv) \<and> map Inr rs = map2 (mkResult_any H) (lanes ?surv) prs))
   \<and> (\<forall>e. out = Rejected e \<longrightarrow>
         (\<exists>t \<in> set tasks. adapter t \<notin> set (failedVerify (log st')) \<and> PublishCall t (Inl e) \<in> set (log st')))
   \<and> ((\<forall>t \<in> set tasks. adapter t \<notin> set (failedVerify (log st')) \<longrightarrow> publishes_any H t) \<longrightarrow>
         (\<exists>rs. out = Resolved rs \<and> length rs = length (lanes ?surv)))"
    by (intro conjI) (rule 1, rule 2, rule 3, rule 4, rule 5)
qed

theorem executeTasks_any_verify_gate_witness:
  "keeps_protocol (DummyAdapter_instance 0) \<and> keeps_protocol (DummyAdapter_instance 1)
   \<and> fst (executeTasks_any DummyAdapter_instance True exampleBatch dummyWorld) =
       Resolved [exampleResult ''r0'', exampleResult ''r2'', exampleResult ''r3'']
   \<and> failedVerify (log (snd (executeTasks_any DummyAdapter_instance True exampleBatch dummyWorld))) = [1]
   \<and> count_list (verifyCalls (log (snd (executeTasks_any DummyAdapter_instance True exampleBatch dummyWorld)))) 0 = 1
   \<and> count_list (verifyCalls (log (snd (executeTasks_any DummyAdapter_instance True exampleBatch dummyWorld)))) 1 = 1
   \<and> count_list (verifyCalls (log (snd (executeTasks_any DummyAdapter_instance True exampleBatch dummyWorld)))) 2 = 0
   \<and> exampleTask 1 0 ''r1''
       \<notin> set (publishCalls (log (snd (executeTasks_any DummyAdapter_instance True exampleBatch dummyWorld))))
   \<and> length [exampleResult ''r0'', exampleResult ''r2'', exampleResult ''r3''] =
        length (lanes (survivors exampleLog exampleBatch))"
proof -
  let ?X = "executeTasks_any DummyAdapter_instance True exampleBatch dummyWorld"
  have k: "\<forall>t \<in> set exampleBatch. keeps_protocol (DummyAdapter_instance (adapter t))"
    using DummyAdapter_instance_keeps by simp
  have X: "(\<forall>t \<in> set exampleBatch. keeps_protocol (DummyAdapter_instance (adapter t))) \<and> ?X = (fst ?X, snd ?X)"
    using k by simp
  note T = executeTasks_any_verify_gate[of exampleBatch DummyAdapter_instance dummyWorld "fst ?X" "snd ?X",
      THEN mp, OF X]
  have l: "log (snd ?X) = exampleLog" unfolding exampleBatch_run_any by (rule exampleBatch_run[THEN conjunct2])
  have o: "fst ?X = Resolved [exampleResult ''r0'', exampleResult ''r2'', exampleResult ''r3'']"
    unfolding exampleBatch_run_any by (rule exampleBatch_run[THEN conjunct1])
  have f: "failedVerify (log (snd ?X)) = [1]" unfolding l by (rule exampleLog_reads(2))
  note T1 = T[THEN conjunct1, rule_format]
  have c: "count_list (verifyCalls (log (snd ?X))) 0 = 1" "count_list (verifyCalls (log (snd ?X))) 1 = 1"
    "count_list (verifyCalls (log (snd ?X))) 2 = 0"
    using T1[of 0] T1[of 1] T1[of 2] by (simp_all add: exampleBatch_def exampleTask_def)
  note T2 = T[THEN conjunct2, THEN conjunct1]
  have n: "exampleTask 1 0 ''r1'' \<notin> set (publishCalls (log (snd ?X)))"
  proof
    assume "exampleTask 1 0 ''r1'' \<in> set (publishCalls (log (snd ?X)))"
    with T2 have "adapter (exampleTask 1 0 ''r1'') \<notin> set (failedVerify (log (snd ?X)))" by blast
    then show False unfolding f by (simp add: exampleTask_def)
  qed
  have p: "\<forall>t \<in> set exampleBatch. adapter t \<notin> set (failedVerify (log (snd ?X))) \<longrightarrow>
             publishes_any DummyAdapter_instance t"
    using DummyAdapter_instance_publishes by (simp add: exampleBatch_def)
  note T5 = T[THEN conjunct2, THEN conjunct2, THEN conjunct2, THEN conjunct2, THEN mp, OF p]
  from T5 obtain rs where rs: "fst ?X = Resolved rs" "length rs = length (lanes (survivors (log (snd ?X)) exampleBatch))"
    by (elim exE conjE)
  have "rs = [exampleResult ''r0'', exampleResult ''r2'', exampleResult ''r3'']" using rs(1) o by simp
  then have len: "length [exampleResult ''r0'', exampleResult ''r2'', exampleResult ''r3''] =
        length (lanes (survivors exampleLog exampleBatch))"
    using rs(2) l by simp
  show ?thesis
    by (intro conjI) (rule DummyAdapter_instance_keeps, rule DummyAdapter_instance_keeps,
        rule o, rule f, rule c(1), rule c(2), rule c(3), rule n, rule len)
qed

text \<open>
  Against C1 as the specification words it (for every adapter whose \<^verbatim>\<open>verify()\<close>
  fails, no exception reaches the caller): the \<^verbatim>\<open>verify()\<close> of a plain
  \<^verbatim>\<open>new SocialAdapter()\<close> fails, the \<^verbatim>\<open>catch\<close> block reads its \<^verbatim>\<open>id\<close> for the
  warning, and \<^verbatim>\<open>executeTasks\<close> rejects with the \<^verbatim>\<open>NotImplementedError\<close> of the
  getter; the task of the \<^verbatim>\<open>DummyAdapter\<close> behind it is never published. An adapter
  whose \<^verbatim>\<open>verify()\<close> rejects with \<^verbatim>\<open>undefined\<close> ends the call with a
  \<^verbatim>\<open>TypeError\<close> in the same way.
\<close>

theorem executeTasks_any_gate_throws:
  "executeTasks_any exampleHeap True plainBatch dummyWorld =
     (Rejected (NotImplementedError ''get id''),
      \<lparr>log = [VerifyCall 2 (Inl (ErrorObject (NotImplementedError ''verify'')))], world = dummyWorld\<rparr>)
   \<and> executeTasks_any exampleHeap True quietBatch dummyWorld =
     (Rejected (TypeError (''Cannot read properties of undefined (reading '' @ [CHR 0x27] @ ''message'' @ [CHR 0x27] @ '')'')),
      \<lparr>log = [VerifyCall 3 (Inl UndefinedValue)], world = dummyWorld\<rparr>)"
  by (simp add: executeTasks_any_def verifyGate_any_def exampleHeap_def plainBatch_def quietBatch_def
      exampleTask_def SocialAdapter_instance_def)





end
